theory Spec2Isabelle
  imports Main "HOL-Library.Word" "HOL-Library.Sublist" "HOL-Library.Char_ord"
    "HOL-Library.List_Lexorder" "HOL-Library.AList"
begin

section \<open>Byte strings and the Go library calls of store.go\<close>

text \<open>
  Keys and values of the store are Go byte slices; \<open>string(iterator.Key())\<close> turns a key
  into a Go string without changing its bytes. Both are \<^typ>\<open>string\<close> here: a list of
  8-bit characters, ordered byte-lexicographically (\<open>Char_ord\<close>, \<open>List_Lexorder\<close>).
\<close>

type_synonym bytes = string

text \<open>
  \<open>strings.Split(s, sep)\<close> of the Go standard library for a one-byte separator: the
  segments of \<open>s\<close> between the occurrences of \<open>sep\<close>. The result is never empty
  (\<open>strings.Split("", "/")\<close> is the one-element slice holding the empty string).
\<close>

fun Split :: "string \<Rightarrow> char \<Rightarrow> string list" where
  "Split [] sep = [[]]"
| "Split (c # cs) sep =
     (if c = sep then [] # Split cs sep
      else (case Split cs sep of [] \<Rightarrow> [[c]] | seg # segs \<Rightarrow> (c # seg) # segs))"

text \<open>
  \<open>strconv.FormatUint(n, 10)\<close> and \<open>strconv.ParseUint(s, 10, 64)\<close>: decimal numerals of
  unsigned 64-bit integers. \<open>ParseUint\<close> refuses the empty string, every character that
  is not a decimal digit (a sign too) and every value beyond \<open>2^64 - 1\<close>.
\<close>

definition digit_char :: "nat \<Rightarrow> char" where
  "digit_char d = ''0123456789'' ! d"

definition is_digit :: "char \<Rightarrow> bool" where
  "is_digit c = (48 \<le> (of_char c :: nat) \<and> (of_char c :: nat) \<le> 57)"

definition digit_val :: "char \<Rightarrow> nat" where
  "digit_val c = of_char c - 48"

fun FormatUint :: "nat \<Rightarrow> string" where
  "FormatUint n =
     (if n < 10 then [digit_char n] else FormatUint (n div 10) @ [digit_char (n mod 10)])"

declare FormatUint.simps [simp del]

definition decimal_value :: "string \<Rightarrow> nat" where
  "decimal_value s = foldl (\<lambda>a c. 10 * a + digit_val c) 0 s"

definition ParseUint :: "string \<Rightarrow> 64 word option" where
  "ParseUint s =
     (if s = [] \<or> \<not> list_all is_digit s then None
      else if decimal_value s < 2 ^ 64 then Some (word_of_nat (decimal_value s))
      else None)"

section \<open>Errors and panics\<close>

text \<open>
  The error values \<open>MigrateStore\<close> can return: the registered errors of the host and
  client packages, an error of the codec (opaque, named by a string), and
  \<open>sdkerrors.Wrap(err, msg)\<close>. A Go panic is not a returned error: it unwinds the
  stack, running the deferred calls, and the caller of \<open>MigrateStore\<close> receives no
  \<open>err\<close> value.
\<close>

datatype error =
    ErrInvalidID
  | ErrClientNotFound
  | ErrInvalidClient
  | ErrInvalidHeight
  | ErrCodec string
  | Wrap error string

datatype panic_value = PanicError error | IndexOutOfRange

datatype outcome = Returned "error option" | Panicked panic_value

section \<open>Heights, identifiers and keys (packages 02-client/types, 24-host, exported)\<close>

record Height =
  RevisionNumber :: "64 word"
  RevisionHeight :: "64 word"

text \<open>
  Modelled from the spec: \<open>Height.String\<close>, \<open>ParseHeight\<close> and \<open>MustParseHeight\<close> of
  02-client/types are not under src/. Section 3: a Height is a pair (revision, height)
  that "serializes to/from a string form \<open>{revision}-{height}\<close>"; section 4.3: parsing
  "fails fatally if unparseable". \<open>MustParseHeight\<close> returns a \<open>Height\<close> and no error
  (store.go passes its result straight to \<open>append\<close>), so its only way to fail is a panic.
\<close>

definition Height_String :: "Height \<Rightarrow> string" where
  "Height_String h =
     FormatUint (unat (RevisionNumber h)) @ ''-'' @ FormatUint (unat (RevisionHeight h))"

definition ParseHeight :: "string \<Rightarrow> error + Height" where
  "ParseHeight heightStr =
     (case Split heightStr CHR ''-'' of
        [r, h] \<Rightarrow>
          (case ParseUint r of
             None \<Rightarrow> Inl ErrInvalidHeight
           | Some revisionNumber \<Rightarrow>
               (case ParseUint h of
                  None \<Rightarrow> Inl ErrInvalidHeight
                | Some revisionHeight \<Rightarrow>
                    Inr \<lparr>RevisionNumber = revisionNumber, RevisionHeight = revisionHeight\<rparr>))
      | _ \<Rightarrow> Inl ErrInvalidHeight)"

definition MustParseHeight :: "string \<Rightarrow> panic_value + Height" where
  "MustParseHeight heightStr =
     (case ParseHeight heightStr of
        Inl err \<Rightarrow> Inl (PanicError err)
      | Inr height \<Rightarrow> Inr height)"

text \<open>
  Modelled from the spec: the key literals of 24-host and the client type tags of
  \<open>exported\<close> are not under src/. Their values are the ones the comments of store.go
  and the spec give: "key is clients/<clientid>/clientState", "key is in the format
  consensusStates/<height>", the identifiers \<open>06-solomachine-0\<close> and \<open>07-tendermint-0\<close>
  of section 8 and the message "client id contains 07-tendermint".
\<close>

definition KeyClientStorePrefix :: string where
  "KeyClientStorePrefix = ''clients''"

definition KeyClientState :: string where
  "KeyClientState = ''clientState''"

definition KeyConsensusStatePrefix :: string where
  "KeyConsensusStatePrefix = ''consensusStates''"

definition ClientStateKey :: string where
  "ClientStateKey = KeyClientState"

definition ConsensusStateKey :: "Height \<Rightarrow> string" where
  "ConsensusStateKey height = KeyConsensusStatePrefix @ ''/'' @ Height_String height"

definition Solomachine :: string where
  "Solomachine = ''06-solomachine''"

definition Tendermint :: string where
  "Tendermint = ''07-tendermint''"

text \<open>
  Modelled from the spec: \<open>ParseClientIdentifier\<close> of 02-client/types is not under
  src/. Section 3: a client identifier is "of the form \<open>{type-tag}-{sequence}\<close> (e.g.
  \<open>07-tendermint-0\<close>)"; section 4.2a: "fails with \<open>ErrInvalidIdentifier\<close> if the format
  does not match \<open>{tag}-{number}\<close>". The tag is what stands before the last hyphen (a
  tag holds hyphens itself) and must not be empty; the number is a decimal numeral.
\<close>

definition ParseClientIdentifier :: "string \<Rightarrow> error + (string \<times> 64 word)" where
  "ParseClientIdentifier clientID =
     (let splitStr = Split clientID CHR ''-'';
          clientType = take (length clientID - length (last splitStr) - 1) clientID
      in if length splitStr < 2 \<or> clientType = [] then Inl ErrInvalidID
         else (case ParseUint (last splitStr) of
                 None \<Rightarrow> Inl ErrInvalidID
               | Some sequence \<Rightarrow> Inr (clientType, sequence)))"

section \<open>Client states and the codec\<close>

text \<open>
  \<open>codectypes.Any\<close>: the type-tagged envelope of a protobuf message.
\<close>

record Any =
  TypeUrl :: string
  Value :: bytes

text \<open>
  Modelled from the spec: the generated protobuf types \<open>ClientState\<close> of package v100
  (the legacy solo machine, v1) and \<open>solomachine.ClientState\<close> (v2) are not under src/.
  Section 3: the legacy record has "sequence number, frozen-sequence number (0 = not
  frozen), embedded consensus state (public key, diversifier string, timestamp)"; the
  new one "sequence number, boolean is-frozen, embedded consensus state (same three
  sub-fields)". \<open>migrateSolomachine\<close> reads and writes exactly these fields.
\<close>

record ConsensusState =
  PublicKey :: "Any option"
  Diversifier :: string
  Timestamp :: "64 word"

record ClientState =
  Sequence :: "64 word"
  FrozenSequence :: "64 word"
  ConsensusState :: ConsensusState

record solomachine_ConsensusState =
  solomachine_PublicKey :: "Any option"
  solomachine_Diversifier :: string
  solomachine_Timestamp :: "64 word"

record solomachine_ClientState =
  solomachine_Sequence :: "64 word"
  solomachine_IsFrozen :: bool
  solomachine_ConsensusState :: solomachine_ConsensusState

text \<open>
  \<open>exported.ClientState\<close> is an interface; \<open>cdc.UnmarshalInterface\<close> yields a value of
  some dynamic type, and the type assertion of line 91 asks whether that type is
  the tendermint client state. The tendermint client state itself is opaque to
  store.go (type variable \<open>'tm\<close>).
\<close>

datatype 'tm exported_ClientState =
    TendermintClientState 'tm
  | SolomachineClientState solomachine_ClientState
  | OtherClientState string

section \<open>The store (cosmos-sdk store/types, store/prefix)\<close>

text \<open>
  A \<open>KVStore\<close> maps keys to values; \<open>Get\<close> of an absent key is \<open>nil\<close>. The store is an
  association list read through \<^const>\<open>map_of\<close>. \<open>sdk.KVStorePrefixIterator(store, p)\<close>
  runs over the keys of the store that start with \<open>p\<close>, each once, in ascending byte
  order; \<^term>\<open>KVStorePrefixIterator s p\<close> is the list of the keys it visits.
\<close>

type_synonym kvstore = "(string \<times> bytes) list"

definition KVStore_Get :: "kvstore \<Rightarrow> string \<Rightarrow> bytes option" where
  "KVStore_Get s key = map_of s key"

definition KVStorePrefixIterator :: "kvstore \<Rightarrow> string \<Rightarrow> string list" where
  "KVStorePrefixIterator s p = sort (remdups (filter (prefix p) (map fst s)))"

text \<open>
  The state threaded through the migration: the store, and the trace of the store
  operations issued so far (ghost state: which iterator was opened, read and closed
  and which key was written or deleted, in program order).
\<close>

datatype event =
    IterOpen string
  | IterKey string string
  | IterClose string
  | SetKey string
  | DeleteKey string
  | ExternalPrune string

record state =
  store :: kvstore
  trace :: "event list"

definition emit :: "event \<Rightarrow> state \<Rightarrow> state" where
  "emit e st = st\<lparr>trace := trace st @ [e]\<rparr>"

definition KVStore_Set :: "string \<Rightarrow> bytes \<Rightarrow> state \<Rightarrow> state" where
  "KVStore_Set key val st = emit (SetKey key) (st\<lparr>store := AList.update key val (store st)\<rparr>)"

definition KVStore_Delete :: "string \<Rightarrow> state \<Rightarrow> state" where
  "KVStore_Delete key st = emit (DeleteKey key) (st\<lparr>store := AList.delete key (store st)\<rparr>)"

text \<open>
  \<open>prefix.NewStore(parent, pfx)\<close>: a view of the parent store. Every key given to the
  view is prepended with \<open>pfx\<close> before it reaches the parent, and the keys its
  iterator returns are the parent's keys with \<open>pfx\<close> stripped.
\<close>

definition prefixStore_Get :: "string \<Rightarrow> state \<Rightarrow> string \<Rightarrow> bytes option" where
  "prefixStore_Get pfx st key = KVStore_Get (store st) (pfx @ key)"

definition prefixStore_Set :: "string \<Rightarrow> string \<Rightarrow> bytes \<Rightarrow> state \<Rightarrow> state" where
  "prefixStore_Set pfx key val st = KVStore_Set (pfx @ key) val st"

definition prefixStore_Delete :: "string \<Rightarrow> string \<Rightarrow> state \<Rightarrow> state" where
  "prefixStore_Delete pfx key st = KVStore_Delete (pfx @ key) st"

definition prefixStore_Iterator :: "string \<Rightarrow> kvstore \<Rightarrow> string \<Rightarrow> string list" where
  "prefixStore_Iterator pfx s p = map (drop (length pfx)) (KVStorePrefixIterator s (pfx @ p))"

text \<open>
  What a routine that is handed the view can see and change: the entries of the
  parent under \<open>pfx\<close> with \<open>pfx\<close> stripped, and the parent with these entries replaced.
\<close>

definition prefixStore_entries :: "string \<Rightarrow> kvstore \<Rightarrow> kvstore" where
  "prefixStore_entries pfx s =
     map (\<lambda>(k, v). (drop (length pfx) k, v)) (filter (\<lambda>(k, v). prefix pfx k) s)"

definition prefixStore_replace :: "string \<Rightarrow> kvstore \<Rightarrow> kvstore \<Rightarrow> kvstore" where
  "prefixStore_replace pfx s entries =
     filter (\<lambda>(k, v). \<not> prefix pfx k) s @ map (\<lambda>(k, v). (pfx @ k, v)) entries"

section \<open>What store.go takes from outside\<close>

text \<open>
  The codec, the chain's height and the 07-tendermint package are parameters of the
  migration. \<open>Unmarshal_Any\<close> and \<open>Unmarshal_ClientState\<close> are the two uses of
  \<open>cdc.Unmarshal\<close> (into an \<open>Any\<close>, into a legacy \<open>ClientState\<close>);
  \<open>ProcessedHeightKey\<close>, \<open>IterationKey\<close> and \<open>IterationValue\<close> are the keys
  \<open>ibctm.SetProcessedHeight\<close> and \<open>ibctm.SetIterationKey\<close> write and the value of the
  latter; \<open>PruneAllExpiredConsensusStates\<close> receives the entries of the client's view
  and returns the entries it leaves, with the panic it raised, if any.
\<close>

record ('ctx, 'tm) env =
  Unmarshal_Any :: "bytes \<Rightarrow> error + Any"
  Unmarshal_ClientState :: "bytes \<Rightarrow> error + ClientState"
  MarshalClientState :: "solomachine_ClientState \<Rightarrow> error + bytes"
  UnmarshalInterface :: "bytes \<Rightarrow> error + 'tm exported_ClientState"
  GetSelfHeight :: "'ctx \<Rightarrow> Height"
  ProcessedHeightKey :: "Height \<Rightarrow> string"
  IterationKey :: "Height \<Rightarrow> string"
  IterationValue :: "Height \<Rightarrow> bytes"
  PruneAllExpiredConsensusStates :: "'ctx \<Rightarrow> kvstore \<Rightarrow> 'tm \<Rightarrow> panic_value option \<times> kvstore"

text \<open>
  Modelled from the spec: \<open>SetProcessedHeight\<close> and \<open>SetIterationKey\<close> of 07-tendermint
  are not under src/. Section 4.4: "set two auxiliary keys: Processed-height marker at
  that Height <- the chain's current height", "Iteration-order marker at that Height";
  section 8: the marker of a height holds the string form of the processed height
  ("value \<open>2-30\<close>"). Each is one \<open>Set\<close> on the client's view.
\<close>

definition SetProcessedHeight ::
  "('ctx, 'tm) env \<Rightarrow> string \<Rightarrow> Height \<Rightarrow> Height \<Rightarrow> state \<Rightarrow> state" where
  "SetProcessedHeight env clientStore consHeight processedHeight st =
     prefixStore_Set clientStore (ProcessedHeightKey env consHeight)
       (Height_String processedHeight) st"

definition SetIterationKey :: "('ctx, 'tm) env \<Rightarrow> string \<Rightarrow> Height \<Rightarrow> state \<Rightarrow> state" where
  "SetIterationKey env clientStore height st =
     prefixStore_Set clientStore (IterationKey env height) (IterationValue env height) st"

section \<open>store.go\<close>

subsection \<open>migrateSolomachine\<close>

definition migrateSolomachine :: "ClientState \<Rightarrow> solomachine_ClientState" where
  "migrateSolomachine clientState =
     (let isFrozen = (FrozenSequence clientState \<noteq> 0);
          consensusState =
            \<lparr>solomachine_PublicKey = PublicKey (ConsensusState clientState),
             solomachine_Diversifier = Diversifier (ConsensusState clientState),
             solomachine_Timestamp = Timestamp (ConsensusState clientState)\<rparr>
      in \<lparr>solomachine_Sequence = Sequence clientState,
          solomachine_IsFrozen = isFrozen,
          solomachine_ConsensusState = consensusState\<rparr>)"

subsection \<open>pruneSolomachineConsensusStates\<close>

text \<open>
  The loop of lines 131-140 over the keys the iterator \<open>it\<close> still has to visit. A
  panic of \<open>MustParseHeight\<close> ends it at once.
\<close>

fun pruneSolomachine_collect ::
  "string \<Rightarrow> string list \<Rightarrow> Height list \<Rightarrow> state \<Rightarrow> (panic_value + Height list) \<times> state" where
  "pruneSolomachine_collect it [] heights st = (Inr heights, st)"
| "pruneSolomachine_collect it (key # keys) heights st =
     (let st1 = emit (IterKey it key) st;
          keySplit = Split key CHR ''/''
      in if length keySplit \<noteq> 2 \<or> keySplit ! 0 \<noteq> KeyConsensusStatePrefix
         then pruneSolomachine_collect it keys heights st1
         else (case MustParseHeight (keySplit ! 1) of
                 Inl pv \<Rightarrow> (Inl pv, st1)
               | Inr height \<Rightarrow> pruneSolomachine_collect it keys (heights @ [height]) st1))"

text \<open>
  \<open>defer iterator.Close()\<close> runs when the function returns or panics: after the
  deletes of lines 143-145.
\<close>

definition pruneSolomachineConsensusStates :: "string \<Rightarrow> state \<Rightarrow> panic_value option \<times> state" where
  "pruneSolomachineConsensusStates clientStore st =
     (let it = clientStore @ KeyConsensusStatePrefix;
          keys = prefixStore_Iterator clientStore (store st) KeyConsensusStatePrefix
      in case pruneSolomachine_collect it keys [] (emit (IterOpen it) st) of
           (Inl pv, st1) \<Rightarrow> (Some pv, emit (IterClose it) st1)
         | (Inr heights, st1) \<Rightarrow>
             (None,
              emit (IterClose it)
                (fold (\<lambda>height. prefixStore_Delete clientStore (ConsensusStateKey height))
                   heights st1)))"

subsection \<open>addConsensusMetadata\<close>

fun addConsensusMetadata_collect ::
  "string \<Rightarrow> string list \<Rightarrow> Height list \<Rightarrow> state \<Rightarrow> (panic_value + Height list) \<times> state" where
  "addConsensusMetadata_collect it [] heights st = (Inr heights, st)"
| "addConsensusMetadata_collect it (key # keys) heights st =
     (let st1 = emit (IterKey it key) st;
          keySplit = Split key CHR ''/''
      in if length keySplit \<noteq> 2
         then addConsensusMetadata_collect it keys heights st1
         else (case MustParseHeight (keySplit ! 1) of
                 Inl pv \<Rightarrow> (Inl pv, st1)
               | Inr height \<Rightarrow> addConsensusMetadata_collect it keys (heights @ [height]) st1))"

text \<open>The body of the loop of lines 166-171: the two markers of one height.\<close>

definition addConsensusMetadata_set ::
  "('ctx, 'tm) env \<Rightarrow> 'ctx \<Rightarrow> string \<Rightarrow> Height \<Rightarrow> state \<Rightarrow> state" where
  "addConsensusMetadata_set env ctx clientStore height st =
     SetIterationKey env clientStore height
       (SetProcessedHeight env clientStore height (GetSelfHeight env ctx) st)"

definition addConsensusMetadata ::
  "('ctx, 'tm) env \<Rightarrow> 'ctx \<Rightarrow> string \<Rightarrow> state \<Rightarrow> panic_value option \<times> state" where
  "addConsensusMetadata env ctx clientStore st =
     (let it = clientStore @ KeyConsensusStatePrefix;
          keys = prefixStore_Iterator clientStore (store st) KeyConsensusStatePrefix
      in case addConsensusMetadata_collect it keys [] (emit (IterOpen it) st) of
           (Inl pv, st1) \<Rightarrow> (Some pv, emit (IterClose it) st1)
         | (Inr heights, st1) \<Rightarrow>
             (None,
              emit (IterClose it)
                (fold (addConsensusMetadata_set env ctx clientStore) heights st1)))"

subsection \<open>MigrateStore\<close>

text \<open>
  The scan of lines 30-45. \<open>keySplit[len(keySplit)-1]\<close> is always in range
  (\<open>strings.Split\<close> never returns an empty slice); \<open>keySplit[1]\<close> panics with an index
  out of range when the key has a single segment.
\<close>

fun MigrateStore_collect ::
  "string \<Rightarrow> string list \<Rightarrow> string list \<Rightarrow> state \<Rightarrow> (panic_value + string list) \<times> state" where
  "MigrateStore_collect it [] clients st = (Inr clients, st)"
| "MigrateStore_collect it (key # keys) clients st =
     (let st1 = emit (IterKey it key) st;
          keySplit = Split key CHR ''/''
      in if last keySplit \<noteq> KeyClientState
         then MigrateStore_collect it keys clients st1
         else if length keySplit \<le> 1 then (Inl IndexOutOfRange, st1)
         else MigrateStore_collect it keys (clients @ [keySplit ! 1]) st1)"

definition MigrateStore_scan :: "state \<Rightarrow> (panic_value + string list) \<times> state" where
  "MigrateStore_scan st =
     MigrateStore_collect KeyClientStorePrefix
       (KVStorePrefixIterator (store st) KeyClientStorePrefix) []
       (emit (IterOpen KeyClientStorePrefix) st)"

text \<open>
  \<open>clientPrefix\<close> of line 53, the prefix of the client's view of the store
  (\<open>clientStore\<close>, line 54).
\<close>

definition clientPrefix :: "string \<Rightarrow> string" where
  "clientPrefix clientID = KeyClientStorePrefix @ ''/'' @ clientID @ ''/''"

text \<open>
  The two cases of the switch of line 61, for the client state bytes \<open>bz\<close> read at line
  56: \<open>None\<close> when the loop goes on to the next client, \<open>Some\<close> of the outcome when
  \<open>MigrateStore\<close> ends here.
\<close>

definition migrateClient_Solomachine ::
  "('ctx, 'tm) env \<Rightarrow> string \<Rightarrow> bytes \<Rightarrow> state \<Rightarrow> outcome option \<times> state" where
  "migrateClient_Solomachine env clientStore bz st =
     (case Unmarshal_Any env bz of
        Inl err \<Rightarrow>
          (Some (Returned (Some (Wrap err
             ''failed to unmarshal client state bytes into solo machine client state''))), st)
      | Inr any \<Rightarrow>
          (case Unmarshal_ClientState env (Value any) of
             Inl err \<Rightarrow>
               (Some (Returned (Some (Wrap err
                  ''failed to unmarshal client state bytes into solo machine client state''))), st)
           | Inr clientState \<Rightarrow>
               (case MarshalClientState env (migrateSolomachine clientState) of
                  Inl err \<Rightarrow>
                    (Some (Returned (Some (Wrap err
                       ''failed to unmarshal client state bytes into solo machine client state''))), st)
                | Inr bz' \<Rightarrow>
                    (case pruneSolomachineConsensusStates clientStore
                            (prefixStore_Set clientStore ClientStateKey bz' st) of
                       (Some pv, st1) \<Rightarrow> (Some (Panicked pv), st1)
                     | (None, st1) \<Rightarrow> (None, st1)))))"

definition migrateClient_Tendermint ::
  "('ctx, 'tm) env \<Rightarrow> 'ctx \<Rightarrow> string \<Rightarrow> bytes \<Rightarrow> state \<Rightarrow> outcome option \<times> state" where
  "migrateClient_Tendermint env ctx clientStore bz st =
     (case UnmarshalInterface env bz of
        Inl err \<Rightarrow>
          (Some (Returned (Some (Wrap err
             ''failed to unmarshal client state bytes into tendermint client state''))), st)
      | Inr clientState \<Rightarrow>
          (case clientState of
             TendermintClientState tmClientState \<Rightarrow>
               (case addConsensusMetadata env ctx clientStore st of
                  (Some pv, st1) \<Rightarrow> (Some (Panicked pv), st1)
                | (None, st1) \<Rightarrow>
                    (case PruneAllExpiredConsensusStates env ctx
                            (prefixStore_entries clientStore (store st1)) tmClientState of
                       (pruned, entries) \<Rightarrow>
                         ((case pruned of
                             Some pv \<Rightarrow> Some (Panicked pv)
                           | None \<Rightarrow> None),
                          emit (ExternalPrune clientStore)
                            (st1\<lparr>store := prefixStore_replace clientStore (store st1) entries\<rparr>))))
           | _ \<Rightarrow>
               (Some (Returned (Some (Wrap ErrInvalidClient
                  ''client state is not tendermint even though client id contains 07-tendermint''))), st)))"

text \<open>The body of the loop of lines 47-103 for one client identifier.\<close>

definition migrateClient ::
  "('ctx, 'tm) env \<Rightarrow> 'ctx \<Rightarrow> string \<Rightarrow> state \<Rightarrow> outcome option \<times> state" where
  "migrateClient env ctx clientID st =
     (case ParseClientIdentifier clientID of
        Inl err \<Rightarrow> (Some (Returned (Some err)), st)
      | Inr (clientType, sequence) \<Rightarrow>
          (case prefixStore_Get (clientPrefix clientID) st ClientStateKey of
             None \<Rightarrow> (Some (Returned (Some ErrClientNotFound)), st)
           | Some bz \<Rightarrow>
               if clientType = Solomachine
               then migrateClient_Solomachine env (clientPrefix clientID) bz st
               else if clientType = Tendermint
               then migrateClient_Tendermint env ctx (clientPrefix clientID) bz st
               else (None, st)))"

fun MigrateStore_clients ::
  "('ctx, 'tm) env \<Rightarrow> 'ctx \<Rightarrow> string list \<Rightarrow> state \<Rightarrow> outcome \<times> state" where
  "MigrateStore_clients env ctx [] st = (Returned None, st)"
| "MigrateStore_clients env ctx (clientID # clients) st =
     (case migrateClient env ctx clientID st of
        (Some result, st1) \<Rightarrow> (result, st1)
      | (None, st1) \<Rightarrow> MigrateStore_clients env ctx clients st1)"

text \<open>
  \<open>defer iterator.Close()\<close> of line 35 runs when \<open>MigrateStore\<close> returns or panics: the
  scan's iterator stays open during the whole loop over the clients.
\<close>

definition MigrateStore :: "('ctx, 'tm) env \<Rightarrow> 'ctx \<Rightarrow> state \<Rightarrow> outcome \<times> state" where
  "MigrateStore env ctx st =
     (case MigrateStore_scan st of
        (Inl pv, st1) \<Rightarrow> (Panicked pv, emit (IterClose KeyClientStorePrefix) st1)
      | (Inr clients, st1) \<Rightarrow>
          (case MigrateStore_clients env ctx clients st1 of
             (result, st2) \<Rightarrow> (result, emit (IterClose KeyClientStorePrefix) st2)))"

section \<open>Iterators and writes in the trace\<close>

text \<open>
  An event mutates under a prefix \<open>p\<close> when it writes or deletes a key that starts with
  \<open>p\<close>; the external pruning routine, handed the view \<open>pfx\<close>, may write any key under
  \<open>pfx\<close>. An iterator is named by the prefix it runs over.
\<close>

fun mutates :: "event \<Rightarrow> string \<Rightarrow> bool" where
  "mutates (SetKey key) p = prefix p key"
| "mutates (DeleteKey key) p = prefix p key"
| "mutates (ExternalPrune pfx) p = (prefix p pfx \<or> prefix pfx p)"
| "mutates _ p = False"

text \<open>
  The discipline the spec words: no event mutates under the prefix of an iterator that
  has been opened and not yet closed.
\<close>

fun no_mutation_while_open :: "string list \<Rightarrow> event list \<Rightarrow> bool" where
  "no_mutation_while_open opened [] = True"
| "no_mutation_while_open opened (IterOpen p # es) = no_mutation_while_open (p # opened) es"
| "no_mutation_while_open opened (IterClose p # es) = no_mutation_while_open (remove1 p opened) es"
| "no_mutation_while_open opened (e # es) =
     (list_all (\<lambda>p. \<not> mutates e p) opened \<and> no_mutation_while_open opened es)"

text \<open>
  The discipline of collecting first: \<open>track\<close> follows the iterators that are open, each
  with a flag that says whether a key under its prefix has been mutated since it was
  opened. A read of an iterator that is not open, or whose flag is set, stops the
  tracking, and so does the close of an iterator that is not open. A trace keeps the
  discipline when the tracking runs to its end and leaves no iterator open.
\<close>

fun track :: "(string \<times> bool) list \<Rightarrow> event list \<Rightarrow> (string \<times> bool) list option" where
  "track opened [] = Some opened"
| "track opened (IterOpen p # es) = track ((p, False) # opened) es"
| "track opened (IterKey p key # es) =
     (if map_of opened p = Some False then track opened es else None)"
| "track opened (IterClose p # es) =
     (if map_of opened p = None then None else track (filter (\<lambda>(q, d). q \<noteq> p) opened) es)"
| "track opened (e # es) = track (map (\<lambda>(q, d). (q, d \<or> mutates e q)) opened) es"

definition reads_before_mutations :: "event list \<Rightarrow> bool" where
  "reads_before_mutations es = (track [] es = Some [])"

definition is_mutation :: "event \<Rightarrow> bool" where
  "is_mutation e = (case e of SetKey k \<Rightarrow> True | DeleteKey k \<Rightarrow> True | ExternalPrune p \<Rightarrow> True | _ \<Rightarrow> False)"

definition client_events :: "string \<Rightarrow> event list \<Rightarrow> bool" where
  "client_events c es = (\<forall>d. \<exists>d'. track [(c, d)] es = Some [(c, d')])"

section \<open>An instance for the concrete runs\<close>

text \<open>
  A small textual codec, a chain whose context is its current height, marker keys under
  the client's view and an external pruning routine that finds nothing expired. The
  concrete runs below take their parameters from it. An \<open>Any\<close> is written
  \<open>typeurl|value\<close>; a legacy solo machine client state
  \<open>sequence,frozen_sequence,public_key,diversifier,timestamp\<close>.
\<close>

definition example_env :: "(Height, string) env" where
  "example_env =
     \<lparr>Unmarshal_Any = (\<lambda>bz. case Split bz CHR ''|'' of
          [t, v] \<Rightarrow> Inr \<lparr>TypeUrl = t, Value = v\<rparr>
        | _ \<Rightarrow> Inl (ErrCodec ''any'')),
      Unmarshal_ClientState = (\<lambda>bz. case Split bz CHR '','' of
          [s, f, pk, d, t] \<Rightarrow>
            (case (ParseUint s, ParseUint f, ParseUint t) of
               (Some s', Some f', Some t') \<Rightarrow>
                 Inr \<lparr>Sequence = s', FrozenSequence = f',
                      ConsensusState =
                        \<lparr>PublicKey = (if pk = [] then None else Some \<lparr>TypeUrl = ''key'', Value = pk\<rparr>),
                         Diversifier = d, Timestamp = t'\<rparr>\<rparr>
             | _ \<Rightarrow> Inl (ErrCodec ''client state''))
        | _ \<Rightarrow> Inl (ErrCodec ''client state'')),
      MarshalClientState = (\<lambda>cs. Inr (''solomachine.v2|'' @
          FormatUint (unat (solomachine_Sequence cs)) @ '','' @
          (if solomachine_IsFrozen cs then ''true'' else ''false'') @ '','' @
          (case solomachine_PublicKey (solomachine_ConsensusState cs) of
             None \<Rightarrow> [] | Some a \<Rightarrow> Value a) @ '','' @
          solomachine_Diversifier (solomachine_ConsensusState cs) @ '','' @
          FormatUint (unat (solomachine_Timestamp (solomachine_ConsensusState cs))))),
      UnmarshalInterface = (\<lambda>bz. case Split bz CHR ''|'' of
          [t, v] \<Rightarrow>
            if t = ''tendermint'' then Inr (TendermintClientState v) else Inr (OtherClientState t)
        | _ \<Rightarrow> Inl (ErrCodec ''interface'')),
      GetSelfHeight = (\<lambda>ctx. ctx),
      ProcessedHeightKey = (\<lambda>h. ConsensusStateKey h @ ''/processedHeight''),
      IterationKey = (\<lambda>h. ''iterateConsensusStates'' @ Height_String h),
      IterationValue = (\<lambda>h. ConsensusStateKey h),
      PruneAllExpiredConsensusStates = (\<lambda>ctx entries tm. (None, entries))\<rparr>"

text \<open>
  The two end-to-end scenarios of section 8 of the spec: the solo machine client
  \<open>06-solomachine-0\<close> with sequence 5, frozen sequence 5 and consensus states at heights
  1-1 and 1-2, and the tendermint client \<open>07-tendermint-0\<close> with consensus states at
  2-10 and 2-20, on a chain at height 2-30.
\<close>

definition solomachine_scenario :: state where
  "solomachine_scenario =
     \<lparr>store = [(''clients/06-solomachine-0/clientState'', ''solomachine.v1|5,5,K,d,1000''),
               (''clients/06-solomachine-0/consensusStates/1-1'', ''c1''),
               (''clients/06-solomachine-0/consensusStates/1-2'', ''c2'')],
      trace = []\<rparr>"

definition tendermint_scenario :: state where
  "tendermint_scenario =
     \<lparr>store = [(''clients/07-tendermint-0/clientState'', ''tendermint|cs''),
               (''clients/07-tendermint-0/consensusStates/2-10'', ''c1''),
               (''clients/07-tendermint-0/consensusStates/2-20'', ''c2'')],
      trace = []\<rparr>"

definition chain_height :: Height where
  "chain_height = \<lparr>RevisionNumber = 2, RevisionHeight = 30\<rparr>"

text \<open>
  Stores with keys that are not of the regular layout: keys under the consensus state
  prefix with three segments or another first segment, a height that does not parse, a
  client identifier with no hyphen, and a client state key one level too deep.
\<close>

definition odd_keys :: state where
  "odd_keys =
     \<lparr>store = [(''clients/06-solomachine-0/clientState'', ''solomachine.v1|5,0,K,d,1000''),
               (''clients/06-solomachine-0/consensusStates/1-1'', ''c1''),
               (''clients/06-solomachine-0/consensusStates/1-1/processedTime'', ''t1''),
               (''clients/06-solomachine-0/consensusStatesX/1-2'', ''c2''),
               (''clients/07-tendermint-0/clientState'', ''tendermint|cs'')],
      trace = []\<rparr>"

definition unpruned_keys :: state where
  "unpruned_keys =
     \<lparr>store = [(''clients/06-solomachine-0/clientState'', ''solomachine.v1|5,5,K,d,1000''),
               (''clients/06-solomachine-0/consensusStates/01-2'', ''c2''),
               (''clients/06-solomachine-0/consensusStates/1-1'', ''c1''),
               (''clients/06-solomachine-0/consensusStates/1-1/processedTime'', ''t1'')],
      trace = []\<rparr>"

definition malformed_height :: state where
  "malformed_height =
     \<lparr>store = [(''clients/06-solomachine-0/clientState'', ''solomachine.v1|5,5,K,d,1000''),
               (''clients/06-solomachine-0/consensusStates/abc'', ''c1'')],
      trace = []\<rparr>"

definition backfill_keys :: state where
  "backfill_keys =
     \<lparr>store = [(''clients/07-tendermint-0/clientState'', ''tendermint|cs''),
               (''clients/07-tendermint-0/consensusStates/2-10'', ''c1''),
               (''clients/07-tendermint-0/consensusStates/2-10/processedTime'', ''t1''),
               (''clients/07-tendermint-0/consensusStatesX/1-1'', ''c2'')],
      trace = []\<rparr>"


definition nested_client_state_key :: state where
  "nested_client_state_key =
     \<lparr>store = [(''clients/09-localhost-0/x/clientState'', ''v'')], trace = []\<rparr>"


definition other_tag_client :: state where
  "other_tag_client =
     \<lparr>store = [(''clients/06-solomachine-0/clientState'', ''solomachine.v1|5,5,K,d,1000''),
               (''clients/06-solomachine-0/consensusStates/1-1'', ''c1''),
               (''clients/09-localhost-0/clientState'', ''localhost|x''),
               (''clients/09-localhost-0/consensusStates/1-1'', ''c9'')],
      trace = []\<rparr>"

definition wrong_client_type :: state where
  "wrong_client_type =
     \<lparr>store = [(''clients/07-tendermint-0/clientState'', ''solomachine.v2|5,true,K,d,1000''),
               (''clients/07-tendermint-0/consensusStates/2-10'', ''c1'')],
      trace = []\<rparr>"

section \<open>Splitting and decimal numerals\<close>

lemma Split_nonempty: "Split s sep \<noteq> []"
  by (induction s) (auto split: list.splits)

lemma Split_no_sep: "sep \<notin> set s \<Longrightarrow> Split s sep = [s]"
  by (induction s) auto

lemma Split_append_sep: "sep \<notin> set a \<Longrightarrow> Split (a @ sep # b) sep = a # Split b sep"
  by (induction a) auto

lemma Split_single: "Split s sep = [seg] \<Longrightarrow> s = seg \<and> sep \<notin> set seg"
proof (induction s arbitrary: seg)
  case Nil
  then show ?case by simp
next
  case (Cons c cs)
  show ?case
  proof (cases "c = sep")
    case True
    with Cons.prems show ?thesis by (simp add: Split_nonempty)
  next
    case False
    with Cons.prems obtain seg' where s': "Split cs sep = [seg']" and seg: "seg = c # seg'"
      by (auto simp: Split_nonempty split: list.splits)
    from Cons.IH [OF s'] seg False show ?thesis by simp
  qed
qed

lemma Split_Cons: 
  "Split s sep = seg # segs \<Longrightarrow> segs \<noteq> [] \<Longrightarrow>
     \<exists>rest. s = seg @ sep # rest \<and> sep \<notin> set seg \<and> Split rest sep = segs"
proof (induction s arbitrary: seg)
  case Nil
  then show ?case by simp
next
  case (Cons c cs)
  show ?case
  proof (cases "c = sep")
    case True
    with Cons.prems show ?thesis by auto
  next
    case False
    with Cons.prems obtain seg' where s': "Split cs sep = seg' # segs" and seg: "seg = c # seg'"
      by (auto split: list.splits)
    from Cons.IH [OF s' Cons.prems(2)] obtain rest where
      "cs = seg' @ sep # rest" "sep \<notin> set seg'" "Split rest sep = segs" by blast
    with seg False show ?thesis by auto
  qed
qed

lemma Split_two_iff:
  "Split s sep = [a, b] \<longleftrightarrow> s = a @ sep # b \<and> sep \<notin> set a \<and> sep \<notin> set b"
proof
  assume h: "Split s sep = [a, b]"
  from Split_Cons [OF h] obtain rest where r: "s = a @ sep # rest" "sep \<notin> set a" "Split rest sep = [b]"
    by auto
  from Split_single [OF r(3)] r show "s = a @ sep # b \<and> sep \<notin> set a \<and> sep \<notin> set b" by simp
next
  assume "s = a @ sep # b \<and> sep \<notin> set a \<and> sep \<notin> set b"
  then show "Split s sep = [a, b]" by (simp add: Split_append_sep Split_no_sep)
qed

lemma Split_segments_no_sep: "seg \<in> set (Split s sep) \<Longrightarrow> sep \<notin> set seg"
proof (induction s arbitrary: seg)
  case Nil
  then show ?case by simp
next
  case (Cons c cs)
  then show ?case
    by (cases "Split cs sep") (auto simp: Split_nonempty split: if_splits)
qed

lemma Split_length_two:
  "length (Split s sep) = 2 \<Longrightarrow> Split s sep = [Split s sep ! 0, Split s sep ! 1]"
  by (cases "Split s sep"; cases "tl (Split s sep)") auto

lemma digit_char_props:
  "d < 10 \<Longrightarrow> is_digit (digit_char d) \<and> digit_val (digit_char d) = d
     \<and> digit_char d \<noteq> CHR ''/'' \<and> digit_char d \<noteq> CHR ''-''"
proof -
  assume "d < 10"
  then have "d \<in> {0,1,2,3,4,5,6,7,8,9}" by auto
  then show ?thesis
    by (auto simp: digit_char_def is_digit_def digit_val_def)
qed

lemma FormatUint_digits: "list_all is_digit (FormatUint n) \<and> FormatUint n \<noteq> []"
proof (induction n rule: FormatUint.induct)
  case (1 n)
  show ?case
  proof (cases "n < 10")
    case True
    then show ?thesis by (subst FormatUint.simps, subst FormatUint.simps) (simp add: digit_char_props)
  next
    case False
    with 1 show ?thesis
      by (subst FormatUint.simps, subst (2) FormatUint.simps) (simp add: digit_char_props)
  qed
qed

lemma decimal_value_snoc: "decimal_value (s @ [c]) = 10 * decimal_value s + digit_val c"
  by (simp add: decimal_value_def)

lemma decimal_value_FormatUint: "decimal_value (FormatUint n) = n"
proof (induction n rule: FormatUint.induct)
  case (1 n)
  show ?case
  proof (cases "n < 10")
    case True
    then show ?thesis
      by (subst FormatUint.simps) (simp add: decimal_value_def digit_char_props)
  next
    case False
    with 1 have "decimal_value (FormatUint (n div 10)) = n div 10" by simp
    with False show ?thesis
      by (subst FormatUint.simps) (simp add: decimal_value_snoc digit_char_props)
  qed
qed

lemma FormatUint_no_sep: "c \<in> set (FormatUint n) \<Longrightarrow> c \<noteq> CHR ''/'' \<and> c \<noteq> CHR ''-''"
proof (induction n rule: FormatUint.induct)
  case (1 n)
  show ?case
  proof (cases "n < 10")
    case True
    with 1(2) show ?thesis
      by (subst (asm) FormatUint.simps) (auto simp: digit_char_props)
  next
    case False
    with 1 show ?thesis
      by (subst (asm) (2) FormatUint.simps) (auto simp: digit_char_props)
  qed
qed

lemma ParseUint_FormatUint: "ParseUint (FormatUint (unat w)) = Some w"
proof -
  have "unat w < 2 ^ 64" using unsigned_less [of w] by simp
  then show ?thesis
    by (simp add: ParseUint_def FormatUint_digits decimal_value_FormatUint)
qed

lemma Height_String_no_slash: "CHR ''/'' \<notin> set (Height_String h)"
  using FormatUint_no_sep by (fastforce simp: Height_String_def)

lemma ParseHeight_String: "ParseHeight (Height_String h) = Inr h"
proof -
  have "Split (Height_String h) CHR ''-'' =
          [FormatUint (unat (RevisionNumber h)), FormatUint (unat (RevisionHeight h))]"
    unfolding Height_String_def using FormatUint_no_sep
    by (subst Split_two_iff) fastforce
  then show ?thesis by (simp add: ParseHeight_def ParseUint_FormatUint)
qed

lemma MustParseHeight_String: "MustParseHeight (Height_String h) = Inr h"
  by (simp add: MustParseHeight_def ParseHeight_String)

lemma ParseHeight_error: "ParseHeight s = Inl err \<Longrightarrow> err = ErrInvalidHeight"
  by (auto simp: ParseHeight_def split: list.splits option.splits)

lemma Split_ConsensusStateKey:
  "Split (ConsensusStateKey h) CHR ''/'' = [KeyConsensusStatePrefix, Height_String h]"
  unfolding ConsensusStateKey_def
  by (subst Split_two_iff) (simp add: Height_String_no_slash KeyConsensusStatePrefix_def)

section \<open>The store\<close>

lemma store_emit [simp]: "store (emit e st) = store st"
  by (simp add: emit_def)

lemma trace_emit [simp]: "trace (emit e st) = trace st @ [e]"
  by (simp add: emit_def)

lemma KVStore_Get_Set:
  "KVStore_Get (store (KVStore_Set key val st)) k = (if k = key then Some val else KVStore_Get (store st) k)"
  by (simp add: KVStore_Get_def KVStore_Set_def update_conv')

lemma KVStore_Get_Delete:
  "KVStore_Get (store (KVStore_Delete key st)) k = (if k = key then None else KVStore_Get (store st) k)"
  by (simp add: KVStore_Get_def KVStore_Delete_def delete_conv')

lemma prefixStore_Get_Set:
  "prefixStore_Get pfx (prefixStore_Set pfx key val st) k =
     (if k = key then Some val else prefixStore_Get pfx st k)"
  by (simp add: prefixStore_Get_def prefixStore_Set_def KVStore_Get_Set)

lemma prefixStore_Get_Delete:
  "prefixStore_Get pfx (prefixStore_Delete pfx key st) k =
     (if k = key then None else prefixStore_Get pfx st k)"
  by (simp add: prefixStore_Get_def prefixStore_Delete_def KVStore_Get_Delete)

lemma set_KVStorePrefixIterator:
  "set (KVStorePrefixIterator s p) = {key. KVStore_Get s key \<noteq> None \<and> prefix p key}"
  by (auto simp: KVStorePrefixIterator_def KVStore_Get_def map_of_eq_None_iff)

lemma sorted_KVStorePrefixIterator: "sorted (KVStorePrefixIterator s p)"
  by (simp add: KVStorePrefixIterator_def)

lemma distinct_KVStorePrefixIterator: "distinct (KVStorePrefixIterator s p)"
  by (simp add: KVStorePrefixIterator_def)

lemma set_prefixStore_Iterator:
  "set (prefixStore_Iterator pfx s p) = {key. KVStore_Get s (pfx @ key) \<noteq> None \<and> prefix p key}"
proof (intro set_eqI iffI)
  fix key
  assume "key \<in> set (prefixStore_Iterator pfx s p)"
  then obtain k where k: "KVStore_Get s k \<noteq> None" "prefix (pfx @ p) k" "key = drop (length pfx) k"
    by (auto simp: prefixStore_Iterator_def set_KVStorePrefixIterator)
  from k(2) obtain z where "k = pfx @ p @ z" by (auto simp: prefix_def)
  with k show "key \<in> {key. KVStore_Get s (pfx @ key) \<noteq> None \<and> prefix p key}" by simp
next
  fix key
  assume "key \<in> {key. KVStore_Get s (pfx @ key) \<noteq> None \<and> prefix p key}"
  then have "KVStore_Get s (pfx @ key) \<noteq> None" "prefix (pfx @ p) (pfx @ key)"
    "key = drop (length pfx) (pfx @ key)" by simp_all
  then have "key \<in> drop (length pfx) ` {k. KVStore_Get s k \<noteq> None \<and> prefix (pfx @ p) k}"
    by blast
  then show "key \<in> set (prefixStore_Iterator pfx s p)"
    by (simp add: prefixStore_Iterator_def set_KVStorePrefixIterator)
qed

section \<open>The collection loops\<close>

lemma pruneSolomachine_collect_state:
  "pruneSolomachine_collect it keys hs st = (r, st') \<Longrightarrow>
     store st' = store st \<and> (\<exists>ks. trace st' = trace st @ map (IterKey it) ks)"
proof (induction keys arbitrary: hs st)
  case Nil
  then show ?case by simp
next
  case (Cons key keys)
  show ?case
  proof (cases "pruneSolomachine_collect it keys hs (emit (IterKey it key) st) = (r, st')
                \<or> (\<exists>h. pruneSolomachine_collect it keys (hs @ [h]) (emit (IterKey it key) st) = (r, st'))")
    case True
    then obtain hs' where "pruneSolomachine_collect it keys hs' (emit (IterKey it key) st) = (r, st')"
      by blast
    from Cons.IH [OF this] obtain ks where
      "store st' = store st" "trace st' = trace st @ map (IterKey it) (key # ks)" by auto
    then show ?thesis by blast
  next
    case False
    with Cons.prems have "st' = emit (IterKey it key) st"
      by (auto simp: Let_def split: if_splits sum.splits)
    then have "store st' = store st" "trace st' = trace st @ map (IterKey it) [key]" by simp_all
    then show ?thesis by blast
  qed
qed

lemma addConsensusMetadata_collect_state:
  "addConsensusMetadata_collect it keys hs st = (r, st') \<Longrightarrow>
     store st' = store st \<and> (\<exists>ks. trace st' = trace st @ map (IterKey it) ks)"
proof (induction keys arbitrary: hs st)
  case Nil
  then show ?case by simp
next
  case (Cons key keys)
  show ?case
  proof (cases "addConsensusMetadata_collect it keys hs (emit (IterKey it key) st) = (r, st')
                \<or> (\<exists>h. addConsensusMetadata_collect it keys (hs @ [h]) (emit (IterKey it key) st) = (r, st'))")
    case True
    then obtain hs' where "addConsensusMetadata_collect it keys hs' (emit (IterKey it key) st) = (r, st')"
      by blast
    from Cons.IH [OF this] obtain ks where
      "store st' = store st" "trace st' = trace st @ map (IterKey it) (key # ks)" by auto
    then show ?thesis by blast
  next
    case False
    with Cons.prems have "st' = emit (IterKey it key) st"
      by (auto simp: Let_def split: if_splits sum.splits)
    then have "store st' = store st" "trace st' = trace st @ map (IterKey it) [key]" by simp_all
    then show ?thesis by blast
  qed
qed

lemma MigrateStore_collect_state:
  "MigrateStore_collect it keys cs st = (r, st') \<Longrightarrow>
     store st' = store st \<and> (\<exists>ks. trace st' = trace st @ map (IterKey it) ks)"
proof (induction keys arbitrary: cs st)
  case Nil
  then show ?case by simp
next
  case (Cons key keys)
  show ?case
  proof (cases "\<exists>cs'. MigrateStore_collect it keys cs' (emit (IterKey it key) st) = (r, st')")
    case True
    then obtain cs' where "MigrateStore_collect it keys cs' (emit (IterKey it key) st) = (r, st')"
      by blast
    from Cons.IH [OF this] obtain ks where
      "store st' = store st" "trace st' = trace st @ map (IterKey it) (key # ks)" by auto
    then show ?thesis by blast
  next
    case False
    with Cons.prems have "st' = emit (IterKey it key) st"
      by (auto simp: Let_def split: if_splits)
    then have "store st' = store st" "trace st' = trace st @ map (IterKey it) [key]" by simp_all
    then show ?thesis by blast
  qed
qed

text \<open>The heights a pass collects.\<close>

lemma pruneSolomachine_collect_mono:
  "pruneSolomachine_collect it keys hs st = (Inr heights, st') \<Longrightarrow> set hs \<subseteq> set heights"
proof (induction keys arbitrary: hs st)
  case Nil
  then show ?case by simp
next
  case (Cons key keys)
  let ?st1 = "emit (IterKey it key) st"
  from Cons.prems consider
      (skip) "pruneSolomachine_collect it keys hs ?st1 = (Inr heights, st')"
    | (take) h where "pruneSolomachine_collect it keys (hs @ [h]) ?st1 = (Inr heights, st')"
    by (simp add: Let_def split: if_splits sum.splits)
  then show ?case
  proof cases
    case skip
    from Cons.IH [OF this] show ?thesis .
  next
    case take
    from Cons.IH [OF this] show ?thesis by simp
  qed
qed

lemma pruneSolomachine_collect_complete:
  "pruneSolomachine_collect it keys hs st = (Inr heights, st') \<Longrightarrow> key \<in> set keys \<Longrightarrow>
   Split key CHR ''/'' = [KeyConsensusStatePrefix, s] \<Longrightarrow> MustParseHeight s = Inr h \<Longrightarrow>
     h \<in> set heights"
proof (induction keys arbitrary: hs st)
  case Nil
  then show ?case by simp
next
  case (Cons k keys)
  let ?st1 = "emit (IterKey it k) st"
  show ?case
  proof (cases "k = key")
    case True
    with Cons.prems(1,3,4) have "pruneSolomachine_collect it keys (hs @ [h]) ?st1 = (Inr heights, st')"
      by (simp add: Let_def)
    from pruneSolomachine_collect_mono [OF this] show ?thesis by simp
  next
    case False
    with Cons.prems(2) have mem: "key \<in> set keys" by simp
    from Cons.prems(1) consider
        (skip) "pruneSolomachine_collect it keys hs ?st1 = (Inr heights, st')"
      | (take) h' where "pruneSolomachine_collect it keys (hs @ [h']) ?st1 = (Inr heights, st')"
      by (simp add: Let_def split: if_splits sum.splits)
    then show ?thesis
    proof cases
      case skip
      from Cons.IH [OF this mem Cons.prems(3,4)] show ?thesis .
    next
      case take
      from Cons.IH [OF this mem Cons.prems(3,4)] show ?thesis .
    qed
  qed
qed

lemma pruneSolomachine_collect_Inl:
  "pruneSolomachine_collect it keys hs st = (Inl pv, st') \<Longrightarrow>
     \<exists>key\<in>set keys. \<exists>s. Split key CHR ''/'' = [KeyConsensusStatePrefix, s] \<and> MustParseHeight s = Inl pv"
proof (induction keys arbitrary: hs st)
  case Nil
  then show ?case by simp
next
  case (Cons key keys)
  let ?st1 = "emit (IterKey it key) st"
  let ?ks = "Split key CHR ''/''"
  from Cons.prems consider
      (skip) "pruneSolomachine_collect it keys hs ?st1 = (Inl pv, st')"
    | (take) h where "pruneSolomachine_collect it keys (hs @ [h]) ?st1 = (Inl pv, st')"
    | (stop) "length ?ks = 2" "?ks ! 0 = KeyConsensusStatePrefix" "MustParseHeight (?ks ! 1) = Inl pv"
    by (simp add: Let_def split: if_splits sum.splits)
  then show ?case
  proof cases
    case skip
    from Cons.IH [OF this] show ?thesis by simp
  next
    case take
    from Cons.IH [OF this] show ?thesis by simp
  next
    case stop
    from stop(1,2) have "?ks = [KeyConsensusStatePrefix, ?ks ! 1]"
      using Split_length_two [of key "CHR ''/''"] by simp
    with stop(3) have "\<exists>s. ?ks = [KeyConsensusStatePrefix, s] \<and> MustParseHeight s = Inl pv"
      by blast
    then show ?thesis by simp
  qed
qed

lemma pruneSolomachine_collect_panics:
  "key \<in> set keys \<Longrightarrow> Split key CHR ''/'' = [KeyConsensusStatePrefix, s] \<Longrightarrow>
   MustParseHeight s = Inl pv \<Longrightarrow>
     \<exists>pv' st'. pruneSolomachine_collect it keys hs st = (Inl pv', st')"
proof (induction keys arbitrary: hs st)
  case Nil
  then show ?case by simp
next
  case (Cons k keys)
  let ?st1 = "emit (IterKey it k) st"
  show ?case
  proof (cases "k = key")
    case True
    with Cons.prems show ?thesis by (simp add: Let_def)
  next
    case False
    with Cons.prems have mem: "key \<in> set keys" by simp
    have a: "\<exists>pv' st'. pruneSolomachine_collect it keys hs ?st1 = (Inl pv', st')"
      by (rule Cons.IH [OF mem Cons.prems(2,3)])
    have b: "\<And>h. \<exists>pv' st'. pruneSolomachine_collect it keys (hs @ [h]) ?st1 = (Inl pv', st')"
      by (rule Cons.IH [OF mem Cons.prems(2,3)])
    show ?thesis
      using a b by (simp add: Let_def split: sum.splits)
  qed
qed

lemma addConsensusMetadata_collect_mono:
  "addConsensusMetadata_collect it keys hs st = (Inr heights, st') \<Longrightarrow> set hs \<subseteq> set heights"
proof (induction keys arbitrary: hs st)
  case Nil
  then show ?case by simp
next
  case (Cons key keys)
  let ?st1 = "emit (IterKey it key) st"
  from Cons.prems consider
      (skip) "addConsensusMetadata_collect it keys hs ?st1 = (Inr heights, st')"
    | (take) h where "addConsensusMetadata_collect it keys (hs @ [h]) ?st1 = (Inr heights, st')"
    by (simp add: Let_def split: if_splits sum.splits)
  then show ?case
  proof cases
    case skip
    from Cons.IH [OF this] show ?thesis .
  next
    case take
    from Cons.IH [OF this] show ?thesis by simp
  qed
qed

lemma addConsensusMetadata_collect_complete:
  "addConsensusMetadata_collect it keys hs st = (Inr heights, st') \<Longrightarrow> key \<in> set keys \<Longrightarrow>
   length (Split key CHR ''/'') = 2 \<Longrightarrow> MustParseHeight (Split key CHR ''/'' ! 1) = Inr h \<Longrightarrow>
     h \<in> set heights"
proof (induction keys arbitrary: hs st)
  case Nil
  then show ?case by simp
next
  case (Cons k keys)
  let ?st1 = "emit (IterKey it k) st"
  show ?case
  proof (cases "k = key")
    case True
    with Cons.prems(1,3,4) have "addConsensusMetadata_collect it keys (hs @ [h]) ?st1 = (Inr heights, st')"
      by (simp add: Let_def)
    from addConsensusMetadata_collect_mono [OF this] show ?thesis by simp
  next
    case False
    with Cons.prems(2) have mem: "key \<in> set keys" by simp
    from Cons.prems(1) consider
        (skip) "addConsensusMetadata_collect it keys hs ?st1 = (Inr heights, st')"
      | (take) h' where "addConsensusMetadata_collect it keys (hs @ [h']) ?st1 = (Inr heights, st')"
      by (simp add: Let_def split: if_splits sum.splits)
    then show ?thesis
    proof cases
      case skip
      from Cons.IH [OF this mem Cons.prems(3,4)] show ?thesis .
    next
      case take
      from Cons.IH [OF this mem Cons.prems(3,4)] show ?thesis .
    qed
  qed
qed

lemma addConsensusMetadata_collect_sound:
  "addConsensusMetadata_collect it keys hs st = (Inr heights, st') \<Longrightarrow> h \<in> set heights \<Longrightarrow>
     h \<in> set hs \<or>
     (\<exists>key\<in>set keys. length (Split key CHR ''/'') = 2 \<and> MustParseHeight (Split key CHR ''/'' ! 1) = Inr h)"
proof (induction keys arbitrary: hs st)
  case Nil
  then show ?case by simp
next
  case (Cons key keys)
  let ?st1 = "emit (IterKey it key) st"
  let ?ks = "Split key CHR ''/''"
  from Cons.prems(1) consider
      (skip) "addConsensusMetadata_collect it keys hs ?st1 = (Inr heights, st')"
    | (take) h' where "length ?ks = 2" "MustParseHeight (?ks ! 1) = Inr h'"
        "addConsensusMetadata_collect it keys (hs @ [h']) ?st1 = (Inr heights, st')"
    by (simp add: Let_def split: if_splits sum.splits)
  then show ?case
  proof cases
    case skip
    from Cons.IH [OF this Cons.prems(2)] show ?thesis by auto
  next
    case take
    from Cons.IH [OF take(3) Cons.prems(2)] take(1,2) show ?thesis by auto
  qed
qed

lemma addConsensusMetadata_collect_Inl:
  "addConsensusMetadata_collect it keys hs st = (Inl pv, st') \<Longrightarrow>
     \<exists>key\<in>set keys. length (Split key CHR ''/'') = 2 \<and> MustParseHeight (Split key CHR ''/'' ! 1) = Inl pv"
proof (induction keys arbitrary: hs st)
  case Nil
  then show ?case by simp
next
  case (Cons key keys)
  let ?st1 = "emit (IterKey it key) st"
  let ?ks = "Split key CHR ''/''"
  from Cons.prems consider
      (skip) "addConsensusMetadata_collect it keys hs ?st1 = (Inl pv, st')"
    | (take) h where "addConsensusMetadata_collect it keys (hs @ [h]) ?st1 = (Inl pv, st')"
    | (stop) "length ?ks = 2" "MustParseHeight (?ks ! 1) = Inl pv"
    by (simp add: Let_def split: if_splits sum.splits)
  then show ?case
  proof cases
    case skip
    from Cons.IH [OF this] show ?thesis by simp
  next
    case take
    from Cons.IH [OF this] show ?thesis by simp
  next
    case stop
    then show ?thesis by simp
  qed
qed

lemma addConsensusMetadata_collect_panics:
  "key \<in> set keys \<Longrightarrow> length (Split key CHR ''/'') = 2 \<Longrightarrow>
   MustParseHeight (Split key CHR ''/'' ! 1) = Inl pv \<Longrightarrow>
     \<exists>pv' st'. addConsensusMetadata_collect it keys hs st = (Inl pv', st')"
proof (induction keys arbitrary: hs st)
  case Nil
  then show ?case by simp
next
  case (Cons k keys)
  let ?st1 = "emit (IterKey it k) st"
  show ?case
  proof (cases "k = key")
    case True
    with Cons.prems show ?thesis by (simp add: Let_def)
  next
    case False
    with Cons.prems have mem: "key \<in> set keys" by simp
    have a: "\<exists>pv' st'. addConsensusMetadata_collect it keys hs ?st1 = (Inl pv', st')"
      by (rule Cons.IH [OF mem Cons.prems(2,3)])
    have b: "\<And>h. \<exists>pv' st'. addConsensusMetadata_collect it keys (hs @ [h]) ?st1 = (Inl pv', st')"
      by (rule Cons.IH [OF mem Cons.prems(2,3)])
    show ?thesis
      using a b by (simp add: Let_def split: sum.splits)
  qed
qed

lemma MustParseHeight_panic_value: "MustParseHeight s = Inl pv \<Longrightarrow> pv = PanicError ErrInvalidHeight"
  by (auto simp: MustParseHeight_def split: sum.splits dest: ParseHeight_error)

text \<open>The loops that delete and write.\<close>

lemma fold_Delete_store:
  "KVStore_Get (store (fold (\<lambda>h. prefixStore_Delete pfx (f h)) hs st)) k =
     (if k \<in> (\<lambda>h. pfx @ f h) ` set hs then None else KVStore_Get (store st) k)"
  by (induction hs arbitrary: st) (auto simp: prefixStore_Delete_def KVStore_Get_Delete)

lemma fold_Delete_trace:
  "trace (fold (\<lambda>h. prefixStore_Delete pfx (f h)) hs st) =
     trace st @ map (\<lambda>h. DeleteKey (pfx @ f h)) hs"
  by (induction hs arbitrary: st) (auto simp: prefixStore_Delete_def KVStore_Delete_def)

lemma addConsensusMetadata_set_Get:
  "KVStore_Get (store (addConsensusMetadata_set env ctx pfx h st)) k =
     (if k = pfx @ IterationKey env h then Some (IterationValue env h)
      else if k = pfx @ ProcessedHeightKey env h then Some (Height_String (GetSelfHeight env ctx))
      else KVStore_Get (store st) k)"
  by (simp add: addConsensusMetadata_set_def SetIterationKey_def SetProcessedHeight_def prefixStore_Set_def
      KVStore_Get_Set)

lemma addConsensusMetadata_set_trace:
  "trace (addConsensusMetadata_set env ctx pfx h st) =
     trace st @ [SetKey (pfx @ ProcessedHeightKey env h), SetKey (pfx @ IterationKey env h)]"
  by (simp add: addConsensusMetadata_set_def SetIterationKey_def SetProcessedHeight_def prefixStore_Set_def
      KVStore_Set_def)

lemma fold_addConsensusMetadata_set_frame:
  "\<forall>h\<in>set hs. k \<noteq> pfx @ IterationKey env h \<and> k \<noteq> pfx @ ProcessedHeightKey env h \<Longrightarrow>
     KVStore_Get (store (fold (addConsensusMetadata_set env ctx pfx) hs st)) k = KVStore_Get (store st) k"
  by (induction hs arbitrary: st) (simp_all add: addConsensusMetadata_set_Get)

lemma fold_addConsensusMetadata_set_keeps:
  "KVStore_Get (store st) k \<noteq> None \<Longrightarrow>
     KVStore_Get (store (fold (addConsensusMetadata_set env ctx pfx) hs st)) k \<noteq> None"
  by (induction hs arbitrary: st) (simp_all add: addConsensusMetadata_set_Get)

lemma fold_addConsensusMetadata_set_present:
  "h \<in> set hs \<Longrightarrow>
     KVStore_Get (store (fold (addConsensusMetadata_set env ctx pfx) hs st)) (pfx @ ProcessedHeightKey env h) \<noteq> None \<and>
     KVStore_Get (store (fold (addConsensusMetadata_set env ctx pfx) hs st)) (pfx @ IterationKey env h) \<noteq> None"
proof (induction hs arbitrary: st)
  case Nil
  then show ?case by simp
next
  case (Cons a hs)
  show ?case
  proof (cases "a = h")
    case True
    have "KVStore_Get (store (addConsensusMetadata_set env ctx pfx h st)) (pfx @ ProcessedHeightKey env h) \<noteq> None"
      "KVStore_Get (store (addConsensusMetadata_set env ctx pfx h st)) (pfx @ IterationKey env h) \<noteq> None"
      by (simp_all add: addConsensusMetadata_set_Get)
    with True show ?thesis by (simp add: fold_addConsensusMetadata_set_keeps)
  next
    case False
    with Cons show ?thesis by simp
  qed
qed

lemma fold_addConsensusMetadata_set_processed:
  assumes "\<forall>h'. IterationKey env h' \<noteq> ProcessedHeightKey env h"
  shows "KVStore_Get (store st) (pfx @ ProcessedHeightKey env h) = Some (Height_String (GetSelfHeight env ctx))
           \<or> h \<in> set hs \<Longrightarrow>
     KVStore_Get (store (fold (addConsensusMetadata_set env ctx pfx) hs st)) (pfx @ ProcessedHeightKey env h) =
       Some (Height_String (GetSelfHeight env ctx))"
proof (induction hs arbitrary: st)
  case Nil
  then show ?case by simp
next
  case (Cons a hs)
  have "KVStore_Get (store (addConsensusMetadata_set env ctx pfx a st)) (pfx @ ProcessedHeightKey env h) =
          Some (Height_String (GetSelfHeight env ctx)) \<or> h \<in> set hs"
    using Cons.prems assms by (auto simp: addConsensusMetadata_set_Get)
  from Cons.IH [OF this] show ?case by simp
qed

lemma fold_addConsensusMetadata_set_trace:
  "trace (fold (addConsensusMetadata_set env ctx pfx) hs st) =
     trace st @ concat (map (\<lambda>h. [SetKey (pfx @ ProcessedHeightKey env h), SetKey (pfx @ IterationKey env h)]) hs)"
  by (induction hs arbitrary: st) (simp_all add: addConsensusMetadata_set_trace)

section \<open>The two passes over the consensus states\<close>

lemma pruneSolomachineConsensusStates_result:
  assumes "pruneSolomachineConsensusStates clientStore st = (r, st')"
  obtains (panic) pv st1 where
      "pruneSolomachine_collect (clientStore @ KeyConsensusStatePrefix)
         (prefixStore_Iterator clientStore (store st) KeyConsensusStatePrefix) []
         (emit (IterOpen (clientStore @ KeyConsensusStatePrefix)) st) = (Inl pv, st1)"
      "r = Some pv" "st' = emit (IterClose (clientStore @ KeyConsensusStatePrefix)) st1"
    | (finished) heights st1 where
      "pruneSolomachine_collect (clientStore @ KeyConsensusStatePrefix)
         (prefixStore_Iterator clientStore (store st) KeyConsensusStatePrefix) []
         (emit (IterOpen (clientStore @ KeyConsensusStatePrefix)) st) = (Inr heights, st1)"
      "r = None"
      "st' = emit (IterClose (clientStore @ KeyConsensusStatePrefix))
               (fold (\<lambda>height. prefixStore_Delete clientStore (ConsensusStateKey height)) heights st1)"
  using assms unfolding pruneSolomachineConsensusStates_def Let_def
  by (auto split: prod.splits sum.splits)

lemma addConsensusMetadata_result:
  assumes "addConsensusMetadata env ctx clientStore st = (r, st')"
  obtains (panic) pv st1 where
      "addConsensusMetadata_collect (clientStore @ KeyConsensusStatePrefix)
         (prefixStore_Iterator clientStore (store st) KeyConsensusStatePrefix) []
         (emit (IterOpen (clientStore @ KeyConsensusStatePrefix)) st) = (Inl pv, st1)"
      "r = Some pv" "st' = emit (IterClose (clientStore @ KeyConsensusStatePrefix)) st1"
    | (finished) heights st1 where
      "addConsensusMetadata_collect (clientStore @ KeyConsensusStatePrefix)
         (prefixStore_Iterator clientStore (store st) KeyConsensusStatePrefix) []
         (emit (IterOpen (clientStore @ KeyConsensusStatePrefix)) st) = (Inr heights, st1)"
      "r = None"
      "st' = emit (IterClose (clientStore @ KeyConsensusStatePrefix))
               (fold (addConsensusMetadata_set env ctx clientStore) heights st1)"
  using assms unfolding addConsensusMetadata_def Let_def
  by (auto split: prod.splits sum.splits)

lemma pruneSolomachineConsensusStates_Get:
  assumes "pruneSolomachineConsensusStates clientStore st = (r, st')"
    and "\<forall>h. k \<noteq> clientStore @ ConsensusStateKey h"
  shows "KVStore_Get (store st') k = KVStore_Get (store st) k"
  using assms(1)
proof (cases rule: pruneSolomachineConsensusStates_result)
  case (panic pv st1)
  from pruneSolomachine_collect_state [OF panic(1)] panic(3) show ?thesis by simp
next
  case (finished heights st1)
  from pruneSolomachine_collect_state [OF finished(1)] have "store st1 = store st" by simp
  moreover have "k \<notin> (\<lambda>h. clientStore @ ConsensusStateKey h) ` set heights"
    using assms(2) by auto
  ultimately show ?thesis using finished(3) by (simp add: fold_Delete_store)
qed

lemma pruneSolomachineConsensusStates_only_deletes:
  assumes "pruneSolomachineConsensusStates clientStore st = (r, st')"
    and "KVStore_Get (store st) k = None"
  shows "KVStore_Get (store st') k = None"
  using assms(1)
proof (cases rule: pruneSolomachineConsensusStates_result)
  case (panic pv st1)
  from pruneSolomachine_collect_state [OF panic(1)] panic(3) assms(2) show ?thesis by simp
next
  case (finished heights st1)
  from pruneSolomachine_collect_state [OF finished(1)] have "store st1 = store st" by simp
  then show ?thesis using finished(3) assms(2) by (simp add: fold_Delete_store)
qed

text \<open>Unfolding the model on a concrete store.\<close>

lemmas parse_eval = ParseClientIdentifier_def ParseUint_def is_digit_def decimal_value_def digit_val_def
   MustParseHeight_def ParseHeight_def Height_String_def FormatUint.simps digit_char_def
lemmas key_eval = KeyClientStorePrefix_def KeyClientState_def ClientStateKey_def Solomachine_def Tendermint_def
   KeyConsensusStatePrefix_def ConsensusStateKey_def clientPrefix_def
lemmas store_eval = KVStorePrefixIterator_def emit_def prefixStore_Get_def KVStore_Get_def prefixStore_Iterator_def
   prefixStore_Set_def KVStore_Set_def prefixStore_Delete_def KVStore_Delete_def prefixStore_entries_def prefixStore_replace_def
   SetProcessedHeight_def SetIterationKey_def addConsensusMetadata_set_def Let_def

lemmas migrate_eval = MigrateStore_def MigrateStore_scan_def migrateClient_def migrateClient_Solomachine_def
  migrateClient_Tendermint_def migrateSolomachine_def pruneSolomachineConsensusStates_def addConsensusMetadata_def

text \<open>
  Claim C9: the solo machine pruning pass deletes only keys that split on the separator
  into exactly two segments whose first segment is the consensus state prefix literal.
  Every other key of the client's view (another segment count, another first segment)
  and every key outside the view reads after the pass as it did before.
\<close>

theorem prune_frame:
  assumes "pruneSolomachineConsensusStates clientStore st = (r, st')"
  shows "(\<not> (length (Split key CHR ''/'') = 2 \<and> Split key CHR ''/'' ! 0 = KeyConsensusStatePrefix) \<longrightarrow>
            prefixStore_Get clientStore st' key = prefixStore_Get clientStore st key) \<and>
         (\<not> prefix clientStore k \<longrightarrow> KVStore_Get (store st') k = KVStore_Get (store st) k)"
proof (intro conjI impI)
  assume n: "\<not> (length (Split key CHR ''/'') = 2 \<and> Split key CHR ''/'' ! 0 = KeyConsensusStatePrefix)"
  have "\<forall>h. clientStore @ key \<noteq> clientStore @ ConsensusStateKey h"
  proof (intro allI notI)
    fix h
    assume "clientStore @ key = clientStore @ ConsensusStateKey h"
    then have "Split key CHR ''/'' = [KeyConsensusStatePrefix, Height_String h]"
      by (simp add: Split_ConsensusStateKey)
    with n show False by simp
  qed
  from pruneSolomachineConsensusStates_Get [OF assms this]
  show "prefixStore_Get clientStore st' key = prefixStore_Get clientStore st key"
    by (simp add: prefixStore_Get_def)
next
  assume "\<not> prefix clientStore k"
  then have "\<forall>h. k \<noteq> clientStore @ ConsensusStateKey h" by auto
  from pruneSolomachineConsensusStates_Get [OF assms this]
  show "KVStore_Get (store st') k = KVStore_Get (store st) k" .
qed

theorem prune_frame_witness:
  "prefixStore_Get ''clients/06-solomachine-0/''
      (snd (pruneSolomachineConsensusStates ''clients/06-solomachine-0/'' odd_keys))
      ''consensusStates/1-1/processedTime'' = Some ''t1'' \<and>
   prefixStore_Get ''clients/06-solomachine-0/''
      (snd (pruneSolomachineConsensusStates ''clients/06-solomachine-0/'' odd_keys))
      ''consensusStatesX/1-2'' = Some ''c2'' \<and>
   KVStore_Get (store (snd (pruneSolomachineConsensusStates ''clients/06-solomachine-0/'' odd_keys)))
      ''clients/07-tendermint-0/clientState'' = Some ''tendermint|cs'' \<and>
   prefixStore_Get ''clients/06-solomachine-0/''
      (snd (pruneSolomachineConsensusStates ''clients/06-solomachine-0/'' odd_keys))
      ''consensusStates/1-1'' = None"
proof -
  let ?st' = "snd (pruneSolomachineConsensusStates ''clients/06-solomachine-0/'' odd_keys)"
  have run: "pruneSolomachineConsensusStates ''clients/06-solomachine-0/'' odd_keys =
          (fst (pruneSolomachineConsensusStates ''clients/06-solomachine-0/'' odd_keys), ?st')"
    by simp
  have a: "prefixStore_Get ''clients/06-solomachine-0/'' ?st' ''consensusStates/1-1/processedTime'' = Some ''t1''"
    using prune_frame [OF run, of "''consensusStates/1-1/processedTime''" "''x''"]
    by (simp add: odd_keys_def prefixStore_Get_def KVStore_Get_def)
  have b: "prefixStore_Get ''clients/06-solomachine-0/'' ?st' ''consensusStatesX/1-2'' = Some ''c2''"
    using prune_frame [OF run, of "''consensusStatesX/1-2''" "''x''"]
    by (simp add: odd_keys_def prefixStore_Get_def KVStore_Get_def KeyConsensusStatePrefix_def)
  have c: "KVStore_Get (store ?st') ''clients/07-tendermint-0/clientState'' = Some ''tendermint|cs''"
    using prune_frame [OF run, of "''x''" "''clients/07-tendermint-0/clientState''"]
    by (simp add: odd_keys_def prefixStore_Get_def KVStore_Get_def)
  have d: "prefixStore_Get ''clients/06-solomachine-0/'' ?st' ''consensusStates/1-1'' = None"
    by (simp add: pruneSolomachineConsensusStates_def odd_keys_def store_eval key_eval parse_eval)
  show ?thesis using a b c d by simp
qed


lemma consensus_key_iterated:
  assumes "prefixStore_Get clientStore st (KeyConsensusStatePrefix @ ''/'' @ heightStr) \<noteq> None"
  shows "KeyConsensusStatePrefix @ ''/'' @ heightStr
           \<in> set (prefixStore_Iterator clientStore (store st) KeyConsensusStatePrefix)"
  using assms by (simp add: set_prefixStore_Iterator prefixStore_Get_def)

lemma consensus_key_Split:
  "CHR ''/'' \<notin> set heightStr \<Longrightarrow>
     Split (KeyConsensusStatePrefix @ ''/'' @ heightStr) CHR ''/'' = [KeyConsensusStatePrefix, heightStr]"
  by (subst Split_two_iff) (simp add: KeyConsensusStatePrefix_def)

lemma malformed_height_passes:
  assumes "prefixStore_Get clientStore st (KeyConsensusStatePrefix @ ''/'' @ heightStr) \<noteq> None"
    and "CHR ''/'' \<notin> set heightStr"
    and "ParseHeight heightStr = Inl err"
  shows "fst (pruneSolomachineConsensusStates clientStore st) = Some (PanicError ErrInvalidHeight) \<and>
         store (snd (pruneSolomachineConsensusStates clientStore st)) = store st \<and>
         fst (addConsensusMetadata env ctx clientStore st) = Some (PanicError ErrInvalidHeight) \<and>
         store (snd (addConsensusMetadata env ctx clientStore st)) = store st"
proof -
  let ?key = "KeyConsensusStatePrefix @ ''/'' @ heightStr"
  let ?keys = "prefixStore_Iterator clientStore (store st) KeyConsensusStatePrefix"
  let ?it = "clientStore @ KeyConsensusStatePrefix"
  have mem: "?key \<in> set ?keys" by (rule consensus_key_iterated [OF assms(1)])
  have sp: "Split ?key CHR ''/'' = [KeyConsensusStatePrefix, heightStr]"
    by (rule consensus_key_Split [OF assms(2)])
  have bad: "MustParseHeight heightStr = Inl (PanicError err)"
    using assms(3) by (simp add: MustParseHeight_def)
  obtain pv st1 where p: "pruneSolomachine_collect ?it ?keys [] (emit (IterOpen ?it) st) = (Inl pv, st1)"
    using pruneSolomachine_collect_panics [OF mem sp bad] by blast
  from pruneSolomachine_collect_Inl [OF p] have pv: "pv = PanicError ErrInvalidHeight"
    by (auto dest: MustParseHeight_panic_value)
  from pruneSolomachine_collect_state [OF p] have s1: "store st1 = store st" by simp
  have prune: "pruneSolomachineConsensusStates clientStore st = (Some pv, emit (IterClose ?it) st1)"
    using p by (simp add: pruneSolomachineConsensusStates_def Let_def)
  have sp2: "length (Split ?key CHR ''/'') = 2" "MustParseHeight (Split ?key CHR ''/'' ! 1) = Inl (PanicError err)"
    using sp bad by simp_all
  obtain pv' st2 where a: "addConsensusMetadata_collect ?it ?keys [] (emit (IterOpen ?it) st) = (Inl pv', st2)"
    using addConsensusMetadata_collect_panics [OF mem sp2] by blast
  from addConsensusMetadata_collect_Inl [OF a] have pv': "pv' = PanicError ErrInvalidHeight"
    by (auto dest: MustParseHeight_panic_value)
  from addConsensusMetadata_collect_state [OF a] have s2: "store st2 = store st" by simp
  have add: "addConsensusMetadata env ctx clientStore st = (Some pv', emit (IterClose ?it) st2)"
    using a by (simp add: addConsensusMetadata_def Let_def)
  show ?thesis using prune add pv pv' s1 s2 by simp
qed

text \<open>
  Claim C5, amended: when the client's view holds a key \<open>consensusStates/s\<close> whose
  suffix \<open>s\<close> holds no separator and does not parse as a height, the pruning pass and the
  backfill pass both end in a panic carrying the invalid height error, and neither has
  changed the store. The passes have no error result: the failure is the panic of
  \<open>MustParseHeight\<close>. The loop body for such a client, solo machine or tendermint,
  never goes on to the next client: it ends \<open>MigrateStore\<close> with that panic, unless
  decoding the client state has returned an error before the pass began. The key is
  not skipped.
\<close>

theorem malformed_height_panics:
  assumes "prefixStore_Get clientStore st (KeyConsensusStatePrefix @ ''/'' @ heightStr) \<noteq> None"
    and "CHR ''/'' \<notin> set heightStr"
    and "ParseHeight heightStr = Inl err"
  shows "fst (pruneSolomachineConsensusStates clientStore st) = Some (PanicError ErrInvalidHeight) \<and>
         store (snd (pruneSolomachineConsensusStates clientStore st)) = store st \<and>
         fst (addConsensusMetadata env ctx clientStore st) = Some (PanicError ErrInvalidHeight) \<and>
         store (snd (addConsensusMetadata env ctx clientStore st)) = store st \<and>
         (\<forall>bz. fst (migrateClient_Solomachine env clientStore bz st) =
                 Some (Panicked (PanicError ErrInvalidHeight)) \<or>
               (\<exists>e. fst (migrateClient_Solomachine env clientStore bz st) = Some (Returned (Some e)))) \<and>
         (\<forall>bz. fst (migrateClient_Tendermint env ctx clientStore bz st) =
                 Some (Panicked (PanicError ErrInvalidHeight)) \<or>
               (\<exists>e. fst (migrateClient_Tendermint env ctx clientStore bz st) = Some (Returned (Some e))))"
proof -
  have passes: "\<And>st. prefixStore_Get clientStore st (KeyConsensusStatePrefix @ ''/'' @ heightStr) \<noteq> None \<Longrightarrow>
         fst (pruneSolomachineConsensusStates clientStore st) = Some (PanicError ErrInvalidHeight) \<and>
         store (snd (pruneSolomachineConsensusStates clientStore st)) = store st \<and>
         fst (addConsensusMetadata env ctx clientStore st) = Some (PanicError ErrInvalidHeight) \<and>
         store (snd (addConsensusMetadata env ctx clientStore st)) = store st"
    by (rule malformed_height_passes [OF _ assms(2,3)])
  have solo: "fst (migrateClient_Solomachine env clientStore bz st) =
                 Some (Panicked (PanicError ErrInvalidHeight)) \<or>
               (\<exists>e. fst (migrateClient_Solomachine env clientStore bz st) = Some (Returned (Some e)))" for bz
  proof -
    have "\<And>bz'. fst (pruneSolomachineConsensusStates clientStore
                        (prefixStore_Set clientStore ClientStateKey bz' st)) =
                  Some (PanicError ErrInvalidHeight)"
    proof -
      fix bz'
      have "prefixStore_Get clientStore (prefixStore_Set clientStore ClientStateKey bz' st)
              (KeyConsensusStatePrefix @ ''/'' @ heightStr) \<noteq> None"
        using assms(1) by (simp add: prefixStore_Get_Set)
      from passes [OF this]
      show "fst (pruneSolomachineConsensusStates clientStore
                        (prefixStore_Set clientStore ClientStateKey bz' st)) =
                  Some (PanicError ErrInvalidHeight)" by simp
    qed
    then show ?thesis
      by (auto simp: migrateClient_Solomachine_def split: sum.splits prod.splits option.splits)
         (metis fst_conv option.distinct(1) option.inject)+
  qed
  have tm: "fst (migrateClient_Tendermint env ctx clientStore bz st) =
                 Some (Panicked (PanicError ErrInvalidHeight)) \<or>
               (\<exists>e. fst (migrateClient_Tendermint env ctx clientStore bz st) = Some (Returned (Some e)))" for bz
    using passes [OF assms(1)]
    by (auto simp: migrateClient_Tendermint_def
        split: sum.splits prod.splits option.splits exported_ClientState.splits)
  show ?thesis using passes [OF assms(1)] solo tm by blast
qed

theorem malformed_height_panics_witness:
  "fst (pruneSolomachineConsensusStates ''clients/06-solomachine-0/'' malformed_height) =
     Some (PanicError ErrInvalidHeight) \<and>
   store (snd (pruneSolomachineConsensusStates ''clients/06-solomachine-0/'' malformed_height)) =
     store malformed_height \<and>
   fst (addConsensusMetadata example_env chain_height ''clients/06-solomachine-0/'' malformed_height) =
     Some (PanicError ErrInvalidHeight)"
proof -
  have a: "prefixStore_Get ''clients/06-solomachine-0/'' malformed_height
             (KeyConsensusStatePrefix @ ''/'' @ ''abc'') \<noteq> None"
    by (simp add: malformed_height_def prefixStore_Get_def KVStore_Get_def KeyConsensusStatePrefix_def)
  have b: "CHR ''/'' \<notin> set ''abc''" by simp
  have c: "ParseHeight ''abc'' = Inl ErrInvalidHeight" by (simp add: ParseHeight_def)
  show ?thesis using malformed_height_panics [OF a b c, of example_env chain_height] by simp
qed

text \<open>
  The claim as the spec states it (the \<open>MalformedHeightKey\<close> error is returned to the
  caller) fails: on a store whose solo machine client has the key \<open>consensusStates/abc\<close>,
  \<open>MigrateStore\<close> returns no error value at all, it panics.
\<close>

theorem malformed_height_counterexample:
  "fst (MigrateStore example_env chain_height malformed_height) = Panicked (PanicError ErrInvalidHeight)"
  by (simp add: malformed_height_def example_env_def migrate_eval store_eval key_eval parse_eval)

text \<open>
  Claim C10: the backfill qualifies a key by its segment count alone. It ends without a
  panic exactly when the second segment of every two-segment key under the iterated
  prefix parses as a height; then each of these heights has both markers, whatever the
  first segment of its key is; keys with another segment count are passed over and
  nothing but the markers of the parsed heights is written.
\<close>

theorem backfill_by_segment_count:
  assumes "addConsensusMetadata env ctx clientStore st = (r, st')"
  shows "(r = None \<longleftrightarrow>
            (\<forall>key\<in>set (prefixStore_Iterator clientStore (store st) KeyConsensusStatePrefix).
                length (Split key CHR ''/'') = 2 \<longrightarrow>
                (\<exists>h. MustParseHeight (Split key CHR ''/'' ! 1) = Inr h))) \<and>
         (r = None \<longrightarrow>
            (\<forall>key\<in>set (prefixStore_Iterator clientStore (store st) KeyConsensusStatePrefix). \<forall>h.
                length (Split key CHR ''/'') = 2 \<and> MustParseHeight (Split key CHR ''/'' ! 1) = Inr h \<longrightarrow>
                prefixStore_Get clientStore st' (ProcessedHeightKey env h) \<noteq> None \<and>
                prefixStore_Get clientStore st' (IterationKey env h) \<noteq> None)) \<and>
         (\<forall>k. KVStore_Get (store st') k \<noteq> KVStore_Get (store st) k \<longrightarrow>
            (\<exists>key\<in>set (prefixStore_Iterator clientStore (store st) KeyConsensusStatePrefix). \<exists>h.
                length (Split key CHR ''/'') = 2 \<and> MustParseHeight (Split key CHR ''/'' ! 1) = Inr h \<and>
                (k = clientStore @ ProcessedHeightKey env h \<or> k = clientStore @ IterationKey env h)))"
  using assms
proof (cases rule: addConsensusMetadata_result)
  case (panic pv st1)
  let ?keys = "prefixStore_Iterator clientStore (store st) KeyConsensusStatePrefix"
  from addConsensusMetadata_collect_Inl [OF panic(1)] obtain key where
    "key \<in> set ?keys" "length (Split key CHR ''/'') = 2" "MustParseHeight (Split key CHR ''/'' ! 1) = Inl pv"
    by blast
  then have "\<not> (\<forall>key\<in>set ?keys. length (Split key CHR ''/'') = 2 \<longrightarrow>
                (\<exists>h. MustParseHeight (Split key CHR ''/'' ! 1) = Inr h))"
    by force
  moreover from addConsensusMetadata_collect_state [OF panic(1)] panic(3)
  have "store st' = store st" by simp
  ultimately show ?thesis using panic(2) by simp
next
  case (finished heights st1)
  let ?keys = "prefixStore_Iterator clientStore (store st) KeyConsensusStatePrefix"
  let ?it = "clientStore @ KeyConsensusStatePrefix"
  from addConsensusMetadata_collect_state [OF finished(1)] have s1: "store st1 = store st" by simp
  have all: "\<forall>key\<in>set ?keys. length (Split key CHR ''/'') = 2 \<longrightarrow>
                (\<exists>h. MustParseHeight (Split key CHR ''/'' ! 1) = Inr h)"
  proof (intro ballI impI)
    fix key
    assume k: "key \<in> set ?keys" "length (Split key CHR ''/'') = 2"
    show "\<exists>h. MustParseHeight (Split key CHR ''/'' ! 1) = Inr h"
    proof (cases "MustParseHeight (Split key CHR ''/'' ! 1)")
      case (Inl pv)
      from addConsensusMetadata_collect_panics [OF k Inl, of ?it "[]" "emit (IterOpen ?it) st"] finished(1)
      show ?thesis by simp
    next
      case (Inr h)
      then show ?thesis by blast
    qed
  qed
  have present: "\<forall>key\<in>set ?keys. \<forall>h.
                length (Split key CHR ''/'') = 2 \<and> MustParseHeight (Split key CHR ''/'' ! 1) = Inr h \<longrightarrow>
                prefixStore_Get clientStore st' (ProcessedHeightKey env h) \<noteq> None \<and>
                prefixStore_Get clientStore st' (IterationKey env h) \<noteq> None"
  proof (intro ballI allI impI)
    fix key h
    assume "key \<in> set ?keys"
      "length (Split key CHR ''/'') = 2 \<and> MustParseHeight (Split key CHR ''/'' ! 1) = Inr h"
    then have "h \<in> set heights"
      using addConsensusMetadata_collect_complete [OF finished(1)] by blast
    from fold_addConsensusMetadata_set_present [OF this, of env ctx clientStore st1] finished(3)
    show "prefixStore_Get clientStore st' (ProcessedHeightKey env h) \<noteq> None \<and>
          prefixStore_Get clientStore st' (IterationKey env h) \<noteq> None"
      by (simp add: prefixStore_Get_def)
  qed
  have changed: "\<forall>k. KVStore_Get (store st') k \<noteq> KVStore_Get (store st) k \<longrightarrow>
            (\<exists>key\<in>set ?keys. \<exists>h.
                length (Split key CHR ''/'') = 2 \<and> MustParseHeight (Split key CHR ''/'' ! 1) = Inr h \<and>
                (k = clientStore @ ProcessedHeightKey env h \<or> k = clientStore @ IterationKey env h))"
  proof (intro allI impI)
    fix k
    assume ne: "KVStore_Get (store st') k \<noteq> KVStore_Get (store st) k"
    have "\<not> (\<forall>h\<in>set heights. k \<noteq> clientStore @ IterationKey env h \<and> k \<noteq> clientStore @ ProcessedHeightKey env h)"
    proof
      assume "\<forall>h\<in>set heights. k \<noteq> clientStore @ IterationKey env h \<and> k \<noteq> clientStore @ ProcessedHeightKey env h"
      from fold_addConsensusMetadata_set_frame [OF this, of ctx st1] finished(3) s1 ne show False by simp
    qed
    then obtain h where h: "h \<in> set heights"
      "k = clientStore @ ProcessedHeightKey env h \<or> k = clientStore @ IterationKey env h" by blast
    from addConsensusMetadata_collect_sound [OF finished(1) h(1)] obtain key where
      "key \<in> set ?keys" "length (Split key CHR ''/'') = 2" "MustParseHeight (Split key CHR ''/'' ! 1) = Inr h"
      by auto
    with h(2) show "\<exists>key\<in>set ?keys. \<exists>h.
                length (Split key CHR ''/'') = 2 \<and> MustParseHeight (Split key CHR ''/'' ! 1) = Inr h \<and>
                (k = clientStore @ ProcessedHeightKey env h \<or> k = clientStore @ IterationKey env h)"
      by blast
  qed
  show ?thesis using all present changed finished(2) by simp
qed

lemma backfill_keys_iterated:
  "prefixStore_Iterator ''clients/07-tendermint-0/'' (store backfill_keys) KeyConsensusStatePrefix =
     [''consensusStates/2-10'', ''consensusStates/2-10/processedTime'', ''consensusStatesX/1-1'']"
  by (simp add: backfill_keys_def store_eval key_eval)

theorem backfill_by_segment_count_witness:
  "fst (addConsensusMetadata example_env chain_height ''clients/07-tendermint-0/'' backfill_keys) = None \<and>
   prefixStore_Get ''clients/07-tendermint-0/''
     (snd (addConsensusMetadata example_env chain_height ''clients/07-tendermint-0/'' backfill_keys))
     (ProcessedHeightKey example_env \<lparr>RevisionNumber = 1, RevisionHeight = 1\<rparr>) \<noteq> None \<and>
   prefixStore_Get ''clients/07-tendermint-0/''
     (snd (addConsensusMetadata example_env chain_height ''clients/07-tendermint-0/'' backfill_keys))
     (IterationKey example_env \<lparr>RevisionNumber = 1, RevisionHeight = 1\<rparr>) \<noteq> None"
proof -
  let ?run = "addConsensusMetadata example_env chain_height ''clients/07-tendermint-0/'' backfill_keys"
  have run: "?run = (fst ?run, snd ?run)" by simp
  have parsed: "\<forall>key\<in>set [''consensusStates/2-10'', ''consensusStates/2-10/processedTime'',
                   ''consensusStatesX/1-1''].
          length (Split key CHR ''/'') = 2 \<longrightarrow> (\<exists>h. MustParseHeight (Split key CHR ''/'' ! 1) = Inr h)"
    by (simp add: parse_eval)
  have key: "length (Split ''consensusStatesX/1-1'' CHR ''/'') = 2 \<and>
     MustParseHeight (Split ''consensusStatesX/1-1'' CHR ''/'' ! 1) =
       Inr \<lparr>RevisionNumber = 1, RevisionHeight = 1\<rparr>"
    by (simp add: parse_eval)
  from backfill_by_segment_count [OF run] parsed have none: "fst ?run = None"
    by (simp only: backfill_keys_iterated)
  with backfill_by_segment_count [OF run] key show ?thesis
    by (simp only: backfill_keys_iterated) simp
qed

lemma addConsensusMetadata_marks:
  assumes "addConsensusMetadata env ctx clientStore st = (None, st')"
    and "\<forall>h h'. IterationKey env h' \<noteq> ProcessedHeightKey env h"
    and "\<forall>h. ProcessedHeightKey env h \<noteq> ClientStateKey \<and> IterationKey env h \<noteq> ClientStateKey"
    and "prefixStore_Get clientStore st (ConsensusStateKey h) \<noteq> None"
  shows "prefixStore_Get clientStore st' (ProcessedHeightKey env h) =
           Some (Height_String (GetSelfHeight env ctx)) \<and>
         prefixStore_Get clientStore st' (IterationKey env h) \<noteq> None \<and>
         prefixStore_Get clientStore st' ClientStateKey = prefixStore_Get clientStore st ClientStateKey"
  using assms(1)
proof (cases rule: addConsensusMetadata_result)
  case (panic pv st1)
  then show ?thesis by simp
next
  case (finished heights st1)
  let ?keys = "prefixStore_Iterator clientStore (store st) KeyConsensusStatePrefix"
  from addConsensusMetadata_collect_state [OF finished(1)] have s1: "store st1 = store st" by simp
  have mem: "ConsensusStateKey h \<in> set ?keys"
    using assms(4) by (simp add: set_prefixStore_Iterator prefixStore_Get_def ConsensusStateKey_def)
  have "length (Split (ConsensusStateKey h) CHR ''/'') = 2"
    "MustParseHeight (Split (ConsensusStateKey h) CHR ''/'' ! 1) = Inr h"
    by (simp_all add: Split_ConsensusStateKey MustParseHeight_String)
  from addConsensusMetadata_collect_complete [OF finished(1) mem this] have h: "h \<in> set heights" .
  have p: "prefixStore_Get clientStore st' (ProcessedHeightKey env h) =
           Some (Height_String (GetSelfHeight env ctx))"
    using fold_addConsensusMetadata_set_processed [of env h st1 clientStore ctx heights] assms(2) h finished(3)
    by (simp add: prefixStore_Get_def)
  have i: "prefixStore_Get clientStore st' (IterationKey env h) \<noteq> None"
    using fold_addConsensusMetadata_set_present [OF h, of env ctx clientStore st1] finished(3)
    by (simp add: prefixStore_Get_def)
  have "\<forall>h\<in>set heights. clientStore @ ClientStateKey \<noteq> clientStore @ IterationKey env h \<and>
          clientStore @ ClientStateKey \<noteq> clientStore @ ProcessedHeightKey env h"
    using assms(3) by (metis same_append_eq)
  from fold_addConsensusMetadata_set_frame [OF this, of ctx st1] finished(3) s1
  have c: "prefixStore_Get clientStore st' ClientStateKey = prefixStore_Get clientStore st ClientStateKey"
    by (simp add: prefixStore_Get_def)
  show ?thesis using p i c by simp
qed

section \<open>The scan of the client registry\<close>

lemma MigrateStore_collect_result:
  "\<forall>key\<in>set keys. prefix KeyClientStorePrefix key \<Longrightarrow>
     MigrateStore_collect it keys clients st =
       (Inr (clients @ map (\<lambda>key. Split key CHR ''/'' ! 1)
                        (filter (\<lambda>key. last (Split key CHR ''/'') = KeyClientState) keys)),
        st\<lparr>trace := trace st @ map (IterKey it) keys\<rparr>)"
proof (induction keys arbitrary: clients st)
  case Nil
  then show ?case by simp
next
  case (Cons key keys)
  let ?ks = "Split key CHR ''/''"
  have rest: "\<forall>key\<in>set keys. prefix KeyClientStorePrefix key" using Cons.prems by simp
  have tr: "\<And>c. (emit (IterKey it key) st)\<lparr>trace := trace (emit (IterKey it key) st) @ map (IterKey it) keys\<rparr>
              = st\<lparr>trace := trace st @ map (IterKey it) (key # keys)\<rparr>"
    by (simp add: emit_def)
  show ?case
  proof (cases "last ?ks = KeyClientState")
    case False
    then show ?thesis using Cons.IH [OF rest] tr by (simp add: Let_def)
  next
    case True
    have "\<not> length ?ks \<le> 1"
    proof
      assume "length ?ks \<le> 1"
      then obtain seg where seg: "?ks = [seg]"
        using Split_nonempty [of key "CHR ''/''"] by (cases ?ks) auto
      from Split_single [OF seg] seg True have "key = KeyClientState" by simp
      moreover have "prefix KeyClientStorePrefix key" using Cons.prems by simp
      ultimately show False by (simp add: KeyClientState_def KeyClientStorePrefix_def)
    qed
    with True show ?thesis using Cons.IH [OF rest] tr by (simp add: Let_def)
  qed
qed

lemma MigrateStore_scan_eq:
  "MigrateStore_scan st =
     (Inr (map (\<lambda>key. Split key CHR ''/'' ! 1)
             (filter (\<lambda>key. last (Split key CHR ''/'') = KeyClientState)
                (KVStorePrefixIterator (store st) KeyClientStorePrefix))),
      st\<lparr>trace := trace st @ IterOpen KeyClientStorePrefix #
             map (IterKey KeyClientStorePrefix) (KVStorePrefixIterator (store st) KeyClientStorePrefix)\<rparr>)"
proof -
  have "\<forall>key\<in>set (KVStorePrefixIterator (store st) KeyClientStorePrefix). prefix KeyClientStorePrefix key"
    by (simp add: set_KVStorePrefixIterator)
  from MigrateStore_collect_result [OF this] show ?thesis
    by (simp add: MigrateStore_scan_def emit_def)
qed

text \<open>
  Claim C3: the scan returns, in the order of the iterator (ascending byte order of the
  keys of the store under the client prefix, each once), the second segment of every
  key whose last segment is the client state literal. It never panics, leaves the store
  as it was and adds only iterator events to the trace: a second scan returns the same
  identifiers.
\<close>

theorem scan_result:
  "MigrateStore_scan st =
     (Inr (map (\<lambda>key. Split key CHR ''/'' ! 1)
             (filter (\<lambda>key. last (Split key CHR ''/'') = KeyClientState)
                (KVStorePrefixIterator (store st) KeyClientStorePrefix))),
      st\<lparr>trace := trace st @ IterOpen KeyClientStorePrefix #
             map (IterKey KeyClientStorePrefix) (KVStorePrefixIterator (store st) KeyClientStorePrefix)\<rparr>) \<and>
   sorted (KVStorePrefixIterator (store st) KeyClientStorePrefix) \<and>
   distinct (KVStorePrefixIterator (store st) KeyClientStorePrefix) \<and>
   set (KVStorePrefixIterator (store st) KeyClientStorePrefix) =
     {key. KVStore_Get (store st) key \<noteq> None \<and> prefix KeyClientStorePrefix key} \<and>
   fst (MigrateStore_scan (snd (MigrateStore_scan st))) = fst (MigrateStore_scan st)"
proof -
  have "fst (MigrateStore_scan (snd (MigrateStore_scan st))) = fst (MigrateStore_scan st)"
    by (simp add: MigrateStore_scan_eq)
  then show ?thesis
    using MigrateStore_scan_eq [of st] sorted_KVStorePrefixIterator distinct_KVStorePrefixIterator
      set_KVStorePrefixIterator by simp
qed

theorem scan_result_witness:
  "fst (MigrateStore_scan solomachine_scenario) = Inr [''06-solomachine-0''] \<and>
   store (snd (MigrateStore_scan solomachine_scenario)) = store solomachine_scenario"
  using scan_result [of solomachine_scenario]
  by (simp add: solomachine_scenario_def store_eval key_eval)

section \<open>The loop over the clients\<close>


lemma migrateClient_Solomachine_not_nil:
  "migrateClient_Solomachine env clientStore bz st = (Some r, st') \<Longrightarrow> r \<noteq> Returned None"
  by (auto simp: migrateClient_Solomachine_def split: sum.splits prod.splits option.splits)

lemma migrateClient_Tendermint_not_nil:
  "migrateClient_Tendermint env ctx clientStore bz st = (Some r, st') \<Longrightarrow> r \<noteq> Returned None"
  by (auto simp: migrateClient_Tendermint_def
      split: sum.splits prod.splits option.splits exported_ClientState.splits)

lemma migrateClient_not_nil:
  "migrateClient env ctx clientID st = (Some r, st') \<Longrightarrow> r \<noteq> Returned None"
  by (auto simp: migrateClient_def
      dest: migrateClient_Solomachine_not_nil migrateClient_Tendermint_not_nil
      split: sum.splits prod.splits option.splits if_splits)

lemma MigrateStore_clients_Cons_None:
  "migrateClient env ctx c st = (None, sa) \<Longrightarrow>
     MigrateStore_clients env ctx (c # cs) st = MigrateStore_clients env ctx cs sa"
  by simp

lemma MigrateStore_clients_Cons_Some:
  "migrateClient env ctx c st = (Some r, sa) \<Longrightarrow>
     MigrateStore_clients env ctx (c # cs) st = (r, sa)"
  by simp

lemma MigrateStore_clients_Cons_nil:
  assumes "MigrateStore_clients env ctx (c # cs) st = (Returned None, st')"
  obtains sa where "migrateClient env ctx c st = (None, sa)"
    "MigrateStore_clients env ctx cs sa = (Returned None, st')"
proof -
  obtain x sa where step: "migrateClient env ctx c st = (x, sa)"
    by (cases "migrateClient env ctx c st")
  show thesis
  proof (cases x)
    case None
    with step assms that show thesis by simp
  next
    case (Some r)
    with step assms have "r = Returned None" by simp
    moreover from step Some have "r \<noteq> Returned None"
      using migrateClient_not_nil [of env ctx c st r sa] by simp
    ultimately show thesis by simp
  qed
qed

lemma MigrateStore_clients_append:
  "MigrateStore_clients env ctx pre st = (Returned None, st1) \<Longrightarrow>
     MigrateStore_clients env ctx (pre @ rest) st = MigrateStore_clients env ctx rest st1"
proof (induction pre arbitrary: st)
  case Nil
  then show ?case by simp
next
  case (Cons c pre)
  from Cons.prems obtain sa where step: "migrateClient env ctx c st = (None, sa)"
    and rest: "MigrateStore_clients env ctx pre sa = (Returned None, st1)"
    by (rule MigrateStore_clients_Cons_nil)
  from Cons.IH [OF rest] step show ?case by simp
qed

lemma MigrateStore_clients_split:
  "MigrateStore_clients env ctx (pre @ c # post) st = (Returned None, st') \<Longrightarrow>
     \<exists>sa sb. MigrateStore_clients env ctx pre st = (Returned None, sa) \<and>
             migrateClient env ctx c sa = (None, sb) \<and>
             MigrateStore_clients env ctx post sb = (Returned None, st')"
proof (induction pre arbitrary: st)
  case Nil
  then have "MigrateStore_clients env ctx (c # post) st = (Returned None, st')" by simp
  then obtain sb where "migrateClient env ctx c st = (None, sb)"
    "MigrateStore_clients env ctx post sb = (Returned None, st')"
    by (rule MigrateStore_clients_Cons_nil)
  then show ?case by simp
next
  case (Cons a pre)
  then have "MigrateStore_clients env ctx (a # (pre @ c # post)) st = (Returned None, st')" by simp
  then obtain s1 where step: "migrateClient env ctx a st = (None, s1)"
    and rest: "MigrateStore_clients env ctx (pre @ c # post) s1 = (Returned None, st')"
    by (rule MigrateStore_clients_Cons_nil)
  from Cons.IH [OF rest] obtain sa sb where
    "MigrateStore_clients env ctx pre s1 = (Returned None, sa)"
    "migrateClient env ctx c sa = (None, sb)"
    "MigrateStore_clients env ctx post sb = (Returned None, st')" by blast
  with step show ?case by simp
qed

lemma MigrateStore_eq:
  "MigrateStore_scan st = (Inr clients, st1) \<Longrightarrow> MigrateStore_clients env ctx clients st1 = (r, st2) \<Longrightarrow>
     MigrateStore env ctx st = (r, emit (IterClose KeyClientStorePrefix) st2)"
  by (simp add: MigrateStore_def)

lemma MigrateStore_scan_store: "MigrateStore_scan st = (r, st1) \<Longrightarrow> store st1 = store st"
  using MigrateStore_scan_eq [of st] by auto

lemma scanned_client:
  assumes "MigrateStore_scan st = (Inr clients, st1)" and "clientID \<in> set clients"
  obtains key where "prefix KeyClientStorePrefix key" "KVStore_Get (store st) key \<noteq> None"
      "last (Split key CHR ''/'') = KeyClientState" "clientID = Split key CHR ''/'' ! 1"
proof -
  from assms(1) have "clients = map (\<lambda>key. Split key CHR ''/'' ! 1)
             (filter (\<lambda>key. last (Split key CHR ''/'') = KeyClientState)
                (KVStorePrefixIterator (store st) KeyClientStorePrefix))"
    using MigrateStore_scan_eq [of st] by simp
  with assms(2) obtain key where "key \<in> set (KVStorePrefixIterator (store st) KeyClientStorePrefix)"
    "last (Split key CHR ''/'') = KeyClientState" "clientID = Split key CHR ''/'' ! 1"
    by auto
  with that show thesis by (auto simp: set_KVStorePrefixIterator)
qed

lemma client_state_key_segments:
  assumes "prefix KeyClientStorePrefix key" and "last (Split key CHR ''/'') = KeyClientState"
  shows "1 < length (Split key CHR ''/'')"
proof (rule ccontr)
  assume "\<not> 1 < length (Split key CHR ''/'')"
  then obtain seg where seg: "Split key CHR ''/'' = [seg]"
    using Split_nonempty [of key "CHR ''/''"] by (cases "Split key CHR ''/''") auto
  from Split_single [OF seg] seg assms(2) have "key = KeyClientState" by simp
  with assms(1) show False by (simp add: KeyClientState_def KeyClientStorePrefix_def)
qed

lemma scanned_no_slash:
  assumes "MigrateStore_scan st = (Inr clients, st1)" and "clientID \<in> set clients"
  shows "CHR ''/'' \<notin> set clientID"
proof -
  from assms obtain key where key: "prefix KeyClientStorePrefix key"
      "last (Split key CHR ''/'') = KeyClientState" "clientID = Split key CHR ''/'' ! 1"
    by (rule scanned_client)
  from client_state_key_segments [OF key(1,2)] key(3)
  have "clientID \<in> set (Split key CHR ''/'')" by simp
  then show ?thesis by (rule Split_segments_no_sep)
qed


lemma migrateClient_other:
  "ParseClientIdentifier clientID = Inr (clientType, sequence) \<Longrightarrow>
   clientType \<noteq> Solomachine \<Longrightarrow> clientType \<noteq> Tendermint \<Longrightarrow>
     migrateClient env ctx clientID st =
       (if prefixStore_Get (clientPrefix clientID) st ClientStateKey = None
        then Some (Returned (Some ErrClientNotFound)) else None, st)"
  by (auto simp: migrateClient_def split: option.splits)

lemma migrateClient_wrong_type:
  "ParseClientIdentifier clientID = Inr (Tendermint, sequence) \<Longrightarrow>
   prefixStore_Get (clientPrefix clientID) st ClientStateKey = Some bz \<Longrightarrow>
   UnmarshalInterface env bz = Inr clientState \<Longrightarrow>
   \<forall>tmClientState. clientState \<noteq> TendermintClientState tmClientState \<Longrightarrow>
     migrateClient env ctx clientID st =
       (Some (Returned (Some (Wrap ErrInvalidClient
          ''client state is not tendermint even though client id contains 07-tendermint''))), st)"
  by (cases clientState)
     (simp_all add: migrateClient_def migrateClient_Tendermint_def Solomachine_def Tendermint_def)

text \<open>What the processing of one client leaves alone: every key outside its view.\<close>

lemma map_of_filter_keep:
  "P k \<Longrightarrow> map_of (filter (\<lambda>(k, v). P k) s) k = map_of s k"
  by (induction s) auto

lemma map_of_prefixed_None:
  "\<not> prefix pfx k \<Longrightarrow> map_of (map (\<lambda>(k, v). (pfx @ k, v)) entries) k = None"
  by (induction entries) auto

lemma prefixStore_replace_other:
  "\<not> prefix pfx k \<Longrightarrow> KVStore_Get (prefixStore_replace pfx s entries) k = KVStore_Get s k"
  by (simp add: KVStore_Get_def prefixStore_replace_def map_add_def map_of_prefixed_None
      map_of_filter_keep [where P = "\<lambda>k. \<not> prefix pfx k"] split: option.splits)

lemma addConsensusMetadata_frame:
  assumes "addConsensusMetadata env ctx pfx st = (r, st')" and "\<not> prefix pfx k"
  shows "KVStore_Get (store st') k = KVStore_Get (store st) k"
  using assms(1)
proof (cases rule: addConsensusMetadata_result)
  case (panic pv st1)
  from addConsensusMetadata_collect_state [OF panic(1)] panic(3) show ?thesis by simp
next
  case (finished heights st1)
  from addConsensusMetadata_collect_state [OF finished(1)] have s1: "store st1 = store st" by simp
  have "\<forall>h\<in>set heights. k \<noteq> pfx @ IterationKey env h \<and> k \<noteq> pfx @ ProcessedHeightKey env h"
    using assms(2) by auto
  from fold_addConsensusMetadata_set_frame [OF this, of ctx st1] finished(3) s1 show ?thesis by simp
qed

lemma migrateClient_Solomachine_frame:
  assumes "migrateClient_Solomachine env pfx bz st = (x, st')" and "\<not> prefix pfx k"
  shows "KVStore_Get (store st') k = KVStore_Get (store st) k"
proof (cases "\<exists>bz' r. pruneSolomachineConsensusStates pfx (prefixStore_Set pfx ClientStateKey bz' st) = (r, st')")
  case True
  then obtain bz' r where
    p: "pruneSolomachineConsensusStates pfx (prefixStore_Set pfx ClientStateKey bz' st) = (r, st')"
    by blast
  have "\<forall>h. k \<noteq> pfx @ ConsensusStateKey h" using assms(2) by auto
  from pruneSolomachineConsensusStates_Get [OF p this]
  have "KVStore_Get (store st') k = KVStore_Get (store (prefixStore_Set pfx ClientStateKey bz' st)) k" .
  also have "\<dots> = KVStore_Get (store st) k"
    using assms(2) by (auto simp: prefixStore_Set_def KVStore_Get_Set)
  finally show ?thesis .
next
  case False
  with assms(1) have "st' = st"
    by (auto simp: migrateClient_Solomachine_def split: sum.splits prod.splits option.splits)
  then show ?thesis by simp
qed

lemma migrateClient_Tendermint_frame:
  assumes "migrateClient_Tendermint env ctx pfx bz st = (x, st')" and "\<not> prefix pfx k"
  shows "KVStore_Get (store st') k = KVStore_Get (store st) k"
proof -
  from assms(1) consider
      (same) "st' = st"
    | (panic) pv where "addConsensusMetadata env ctx pfx st = (Some pv, st')"
    | (pruned) st1 entries where "addConsensusMetadata env ctx pfx st = (None, st1)"
        "st' = emit (ExternalPrune pfx) (st1\<lparr>store := prefixStore_replace pfx (store st1) entries\<rparr>)"
    by (auto simp: migrateClient_Tendermint_def
        split: sum.splits prod.splits option.splits exported_ClientState.splits)
  then show ?thesis
  proof cases
    case same
    then show ?thesis by simp
  next
    case panic
    from addConsensusMetadata_frame [OF this assms(2)] show ?thesis .
  next
    case pruned
    from addConsensusMetadata_frame [OF pruned(1) assms(2)] pruned(2) assms(2)
    show ?thesis by (simp add: prefixStore_replace_other)
  qed
qed

lemma migrateClient_frame:
  assumes "migrateClient env ctx clientID st = (x, st')" and "\<not> prefix (clientPrefix clientID) k"
  shows "KVStore_Get (store st') k = KVStore_Get (store st) k"
proof -
  from assms(1) consider
      (same) "st' = st"
    | (solo) bz where "migrateClient_Solomachine env (clientPrefix clientID) bz st = (x, st')"
    | (tm) bz where "migrateClient_Tendermint env ctx (clientPrefix clientID) bz st = (x, st')"
    by (auto simp: migrateClient_def split: sum.splits prod.splits option.splits if_splits)
  then show ?thesis
  proof cases
    case same
    then show ?thesis by simp
  next
    case solo
    from migrateClient_Solomachine_frame [OF this assms(2)] show ?thesis .
  next
    case tm
    from migrateClient_Tendermint_frame [OF this assms(2)] show ?thesis .
  qed
qed

lemma prefix_snoc_same:
  assumes "prefix (a @ [c]) (b @ [c])" and "c \<notin> set a" and "c \<notin> set b"
  shows "a = b"
proof -
  from assms(1) obtain z where z: "b @ [c] = a @ [c] @ z" by (auto simp: prefix_def)
  show ?thesis
  proof (cases z rule: rev_cases)
    case Nil
    with z show ?thesis by simp
  next
    case (snoc z' y)
    with z have "b = a @ [c] @ z'" by simp
    with assms(3) show ?thesis by simp
  qed
qed

lemma clientPrefix_disjoint:
  assumes "CHR ''/'' \<notin> set a" and "CHR ''/'' \<notin> set b" and "a \<noteq> b"
    and "prefix (clientPrefix a) k"
  shows "\<not> prefix (clientPrefix b) k"
proof
  assume "prefix (clientPrefix b) k"
  with assms(4) have "prefix (clientPrefix a) (clientPrefix b) \<or> prefix (clientPrefix b) (clientPrefix a)"
    using prefix_same_cases by blast
  then have "prefix (a @ ''/'') (b @ ''/'') \<or> prefix (b @ ''/'') (a @ ''/'')"
    by (simp add: clientPrefix_def)
  with assms(1,2) have "a = b" using prefix_snoc_same by metis
  with assms(3) show False by simp
qed

lemma MigrateStore_clients_frame:
  "\<forall>c\<in>set cs. \<not> prefix (clientPrefix c) k \<Longrightarrow>
     KVStore_Get (store (snd (MigrateStore_clients env ctx cs st))) k = KVStore_Get (store st) k"
proof (induction cs arbitrary: st)
  case Nil
  then show ?case by simp
next
  case (Cons c cs)
  obtain x sa where step: "migrateClient env ctx c st = (x, sa)"
    by (cases "migrateClient env ctx c st")
  from Cons.prems have nc: "\<not> prefix (clientPrefix c) k" and rest: "\<forall>c\<in>set cs. \<not> prefix (clientPrefix c) k"
    by simp_all
  from migrateClient_frame [OF step nc] have sa: "KVStore_Get (store sa) k = KVStore_Get (store st) k" .
  show ?case
  proof (cases x)
    case None
    with step sa Cons.IH [OF rest, of sa] show ?thesis by simp
  next
    case (Some r)
    with step sa show ?thesis by simp
  qed
qed

lemma MigrateStore_clients_frame_skipped:
  assumes "\<forall>sa. snd (migrateClient env ctx clientID sa) = sa"
  shows "\<forall>c\<in>set cs. c \<noteq> clientID \<longrightarrow> \<not> prefix (clientPrefix c) k \<Longrightarrow>
     KVStore_Get (store (snd (MigrateStore_clients env ctx cs st))) k = KVStore_Get (store st) k"
proof (induction cs arbitrary: st)
  case Nil
  then show ?case by simp
next
  case (Cons c cs)
  obtain x sa where step: "migrateClient env ctx c st = (x, sa)"
    by (cases "migrateClient env ctx c st")
  from Cons.prems have rest: "\<forall>c\<in>set cs. c \<noteq> clientID \<longrightarrow> \<not> prefix (clientPrefix c) k" by simp
  have sa: "KVStore_Get (store sa) k = KVStore_Get (store st) k"
  proof (cases "c = clientID")
    case True
    with assms step have "sa = st" by (metis snd_conv)
    then show ?thesis by simp
  next
    case False
    with Cons.prems have "\<not> prefix (clientPrefix c) k" by simp
    from migrateClient_frame [OF step this] show ?thesis .
  qed
  show ?case
  proof (cases x)
    case None
    with step sa Cons.IH [OF rest, of sa] show ?thesis by simp
  next
    case (Some r)
    with step sa show ?thesis by simp
  qed
qed

lemma MigrateStore_store:
  "MigrateStore_scan st = (Inr clients, st1) \<Longrightarrow>
     store (snd (MigrateStore env ctx st)) = store (snd (MigrateStore_clients env ctx clients st1))"
  by (simp add: MigrateStore_def split: prod.splits)

lemma pruneSolomachineConsensusStates_removes:
  assumes "pruneSolomachineConsensusStates pfx st = (None, st')"
  shows "KVStore_Get (store st') (pfx @ ConsensusStateKey h) = None"
proof (cases "KVStore_Get (store st) (pfx @ ConsensusStateKey h) = None")
  case True
  from pruneSolomachineConsensusStates_only_deletes [OF assms True] show ?thesis .
next
  case False
  from assms show ?thesis
  proof (cases rule: pruneSolomachineConsensusStates_result)
    case (panic pv st1)
    then show ?thesis by simp
  next
    case (finished heights st1)
    have "ConsensusStateKey h \<in> set (prefixStore_Iterator pfx (store st) KeyConsensusStatePrefix)"
      using False by (simp add: set_prefixStore_Iterator ConsensusStateKey_def)
    from pruneSolomachine_collect_complete [OF finished(1) this Split_ConsensusStateKey MustParseHeight_String]
    have "h \<in> set heights" .
    then have "pfx @ ConsensusStateKey h \<in> (\<lambda>h. pfx @ ConsensusStateKey h) ` set heights" by blast
    with finished(3) show ?thesis by (simp add: fold_Delete_store)
  qed
qed

lemma ConsensusStateKey_not_ClientStateKey: "ClientStateKey \<noteq> ConsensusStateKey h"
  by (simp add: ClientStateKey_def KeyClientState_def ConsensusStateKey_def KeyConsensusStatePrefix_def)

lemma migrateClient_Solomachine_None:
  assumes "migrateClient_Solomachine env pfx bz st = (None, st')"
  obtains any clientState bz' where
    "Unmarshal_Any env bz = Inr any" "Unmarshal_ClientState env (Value any) = Inr clientState"
    "MarshalClientState env (migrateSolomachine clientState) = Inr bz'"
    "pruneSolomachineConsensusStates pfx (prefixStore_Set pfx ClientStateKey bz' st) = (None, st')"
  using assms
  by (auto simp: migrateClient_Solomachine_def split: sum.splits prod.splits option.splits)

lemma migrateClient_Solomachine_tag:
  assumes "migrateClient env ctx clientID st = (None, st')"
    and "ParseClientIdentifier clientID = Inr (Solomachine, sequence)"
  obtains bz where "prefixStore_Get (clientPrefix clientID) st ClientStateKey = Some bz"
    "migrateClient_Solomachine env (clientPrefix clientID) bz st = (None, st')"
  using assms by (auto simp: migrateClient_def split: option.splits)

lemma migrateSolomachine_fields:
  "solomachine_IsFrozen (migrateSolomachine cs) = (FrozenSequence cs \<noteq> 0) \<and>
   solomachine_Sequence (migrateSolomachine cs) = Sequence cs \<and>
   solomachine_PublicKey (solomachine_ConsensusState (migrateSolomachine cs)) = PublicKey (ConsensusState cs) \<and>
   solomachine_Diversifier (solomachine_ConsensusState (migrateSolomachine cs)) = Diversifier (ConsensusState cs) \<and>
   solomachine_Timestamp (solomachine_ConsensusState (migrateSolomachine cs)) = Timestamp (ConsensusState cs)"
  by (simp add: migrateSolomachine_def)

section \<open>The claims about the whole migration\<close>

text \<open>
  Claim C1, amended: when \<open>MigrateStore\<close> has succeeded, of every scanned solo machine
  client (no identifier being scanned twice) the client state key holds the re-encoding
  of the migrated record: the bytes found there at the start decode, through the
  envelope, to a legacy record, and the new record has \<open>is_frozen\<close> equal to (frozen
  sequence \<open>\<noteq>\<close> 0) and the sequence, public key, diversifier and timestamp of the legacy
  one. Of the client's consensus state range, no key \<open>consensusStates/h\<close> with \<open>h\<close> the
  string form of a height is left; every key of the client's view that does not split
  into exactly two segments with the consensus state literal first (the filter of line
  134), the client state key apart, reads at the end as at the start.
\<close>

theorem solomachine_migrated:
  assumes "MigrateStore env ctx st = (Returned None, st')"
    and "MigrateStore_scan st = (Inr clients, st1)"
    and "clientID \<in> set clients" and "distinct clients"
    and "ParseClientIdentifier clientID = Inr (Solomachine, sequence)"
  shows "\<exists>bz any clientState bz'.
           KVStore_Get (store st) (clientPrefix clientID @ ClientStateKey) = Some bz \<and>
           Unmarshal_Any env bz = Inr any \<and>
           Unmarshal_ClientState env (Value any) = Inr clientState \<and>
           MarshalClientState env (migrateSolomachine clientState) = Inr bz' \<and>
           KVStore_Get (store st') (clientPrefix clientID @ ClientStateKey) = Some bz' \<and>
           solomachine_IsFrozen (migrateSolomachine clientState) = (FrozenSequence clientState \<noteq> 0) \<and>
           solomachine_Sequence (migrateSolomachine clientState) = Sequence clientState \<and>
           solomachine_PublicKey (solomachine_ConsensusState (migrateSolomachine clientState)) =
             PublicKey (ConsensusState clientState) \<and>
           solomachine_Diversifier (solomachine_ConsensusState (migrateSolomachine clientState)) =
             Diversifier (ConsensusState clientState) \<and>
           solomachine_Timestamp (solomachine_ConsensusState (migrateSolomachine clientState)) =
             Timestamp (ConsensusState clientState) \<and>
           (\<forall>h. KVStore_Get (store st') (clientPrefix clientID @ ConsensusStateKey h) = None) \<and>
           (\<forall>key. \<not> (length (Split key CHR ''/'') = 2 \<and>
                      Split key CHR ''/'' ! 0 = KeyConsensusStatePrefix) \<longrightarrow>
                 key \<noteq> ClientStateKey \<longrightarrow>
                 KVStore_Get (store st') (clientPrefix clientID @ key) =
                 KVStore_Get (store st) (clientPrefix clientID @ key))"
proof -
  let ?pfx = "clientPrefix clientID"
  obtain r st2 where loop: "MigrateStore_clients env ctx clients st1 = (r, st2)"
    by (cases "MigrateStore_clients env ctx clients st1")
  from MigrateStore_eq [OF assms(2) loop] assms(1)
  have r: "r = Returned None" and st': "st' = emit (IterClose KeyClientStorePrefix) st2" by simp_all
  from assms(3) obtain pre post where clients: "clients = pre @ clientID # post"
    by (auto dest: split_list)
  with assms(4) have fresh: "clientID \<notin> set pre" "clientID \<notin> set post" by simp_all
  from loop r clients obtain sa sb where
    pre: "MigrateStore_clients env ctx pre st1 = (Returned None, sa)" and
    step: "migrateClient env ctx clientID sa = (None, sb)" and
    post: "MigrateStore_clients env ctx post sb = (Returned None, st2)"
    using MigrateStore_clients_split [of env ctx pre clientID post st1 st2] by auto
  have ns: "CHR ''/'' \<notin> set clientID" by (rule scanned_no_slash [OF assms(2,3)])
  have others: "\<And>cs k. set cs \<subseteq> set clients \<Longrightarrow> clientID \<notin> set cs \<Longrightarrow> prefix ?pfx k \<Longrightarrow>
                   \<forall>c\<in>set cs. \<not> prefix (clientPrefix c) k"
  proof (intro ballI)
    fix cs k c
    assume "set cs \<subseteq> set clients" "clientID \<notin> set cs" "prefix ?pfx k" "c \<in> set cs"
    then have "c \<in> set clients" "c \<noteq> clientID" by auto
    with scanned_no_slash [OF assms(2)] ns \<open>prefix ?pfx k\<close> show "\<not> prefix (clientPrefix c) k"
      using clientPrefix_disjoint [of clientID c k] by auto
  qed
  have before: "\<And>k. prefix ?pfx k \<Longrightarrow> KVStore_Get (store sa) k = KVStore_Get (store st) k"
  proof -
    fix k
    assume "prefix ?pfx k"
    with others [of pre k] clients fresh(1) have "\<forall>c\<in>set pre. \<not> prefix (clientPrefix c) k" by auto
    from MigrateStore_clients_frame [OF this, of env ctx st1] pre MigrateStore_scan_store [OF assms(2)]
    show "KVStore_Get (store sa) k = KVStore_Get (store st) k" by simp
  qed
  have after: "\<And>k. prefix ?pfx k \<Longrightarrow> KVStore_Get (store st') k = KVStore_Get (store sb) k"
  proof -
    fix k
    assume "prefix ?pfx k"
    with others [of post k] clients fresh(2) have "\<forall>c\<in>set post. \<not> prefix (clientPrefix c) k" by auto
    from MigrateStore_clients_frame [OF this, of env ctx sb] post st'
    show "KVStore_Get (store st') k = KVStore_Get (store sb) k" by simp
  qed
  from step assms(5) obtain bz where
    bz: "prefixStore_Get ?pfx sa ClientStateKey = Some bz" and
    solo: "migrateClient_Solomachine env ?pfx bz sa = (None, sb)"
    by (rule migrateClient_Solomachine_tag)
  from solo obtain any clientState bz' where
    dec: "Unmarshal_Any env bz = Inr any" "Unmarshal_ClientState env (Value any) = Inr clientState"
      "MarshalClientState env (migrateSolomachine clientState) = Inr bz'" and
    prune: "pruneSolomachineConsensusStates ?pfx (prefixStore_Set ?pfx ClientStateKey bz' sa) = (None, sb)"
    by (rule migrateClient_Solomachine_None)
  have old: "KVStore_Get (store st) (?pfx @ ClientStateKey) = Some bz"
    using bz before [of "?pfx @ ClientStateKey"] by (simp add: prefixStore_Get_def)
  have "\<forall>h. ?pfx @ ClientStateKey \<noteq> ?pfx @ ConsensusStateKey h"
    by (simp add: ConsensusStateKey_not_ClientStateKey)
  from pruneSolomachineConsensusStates_Get [OF prune this]
  have "KVStore_Get (store sb) (?pfx @ ClientStateKey) = Some bz'"
    by (simp add: prefixStore_Set_def KVStore_Get_Set)
  with after [of "?pfx @ ClientStateKey"]
  have new: "KVStore_Get (store st') (?pfx @ ClientStateKey) = Some bz'" by simp
  have gone: "\<forall>h. KVStore_Get (store st') (?pfx @ ConsensusStateKey h) = None"
  proof
    fix h
    from pruneSolomachineConsensusStates_removes [OF prune]
    have "KVStore_Get (store sb) (?pfx @ ConsensusStateKey h) = None" .
    with after [of "?pfx @ ConsensusStateKey h"]
    show "KVStore_Get (store st') (?pfx @ ConsensusStateKey h) = None" by simp
  qed
  have kept: "\<forall>key. \<not> (length (Split key CHR ''/'') = 2 \<and>
                      Split key CHR ''/'' ! 0 = KeyConsensusStatePrefix) \<longrightarrow>
                 key \<noteq> ClientStateKey \<longrightarrow>
                 KVStore_Get (store st') (?pfx @ key) = KVStore_Get (store st) (?pfx @ key)"
  proof (intro allI impI)
    fix key
    assume n: "\<not> (length (Split key CHR ''/'') = 2 \<and> Split key CHR ''/'' ! 0 = KeyConsensusStatePrefix)"
      and c: "key \<noteq> ClientStateKey"
    have "\<forall>h. ?pfx @ key \<noteq> ?pfx @ ConsensusStateKey h"
    proof (intro allI notI)
      fix h
      assume "?pfx @ key = ?pfx @ ConsensusStateKey h"
      then have "Split key CHR ''/'' = [KeyConsensusStatePrefix, Height_String h]"
        by (simp add: Split_ConsensusStateKey)
      with n show False by simp
    qed
    from pruneSolomachineConsensusStates_Get [OF prune this] c
    have "KVStore_Get (store sb) (?pfx @ key) = KVStore_Get (store sa) (?pfx @ key)"
      by (simp add: prefixStore_Set_def KVStore_Get_Set)
    with before [of "?pfx @ key"] after [of "?pfx @ key"]
    show "KVStore_Get (store st') (?pfx @ key) = KVStore_Get (store st) (?pfx @ key)" by simp
  qed
  from old dec new gone kept migrateSolomachine_fields [of clientState] show ?thesis by blast
qed


theorem solomachine_migrated_witness:
  "fst (MigrateStore example_env chain_height solomachine_scenario) = Returned None \<and>
   KVStore_Get (store (snd (MigrateStore example_env chain_height solomachine_scenario)))
     ''clients/06-solomachine-0/clientState'' = Some ''solomachine.v2|5,true,K,d,1000'' \<and>
   KVStore_Get (store (snd (MigrateStore example_env chain_height solomachine_scenario)))
     ''clients/06-solomachine-0/consensusStates/1-1'' = None \<and>
   KVStore_Get (store (snd (MigrateStore example_env chain_height solomachine_scenario)))
     ''clients/06-solomachine-0/consensusStates/1-2'' = None"
proof -
  let ?run = "MigrateStore example_env chain_height solomachine_scenario"
  let ?scan = "MigrateStore_scan solomachine_scenario"
  have ok: "fst ?run = Returned None"
    by (simp add: solomachine_scenario_def example_env_def migrate_eval store_eval key_eval parse_eval)
  then have run: "?run = (Returned None, snd ?run)" by (metis prod.collapse)
  have "fst ?scan = Inr [''06-solomachine-0'']"
    by (simp add: solomachine_scenario_def MigrateStore_scan_def store_eval key_eval)
  then have scan: "?scan = (Inr [''06-solomachine-0''], snd ?scan)" by (metis prod.collapse)
  have tag: "ParseClientIdentifier ''06-solomachine-0'' = Inr (Solomachine, 0)"
    by (simp add: parse_eval key_eval)
  have new: "KVStore_Get (store (snd ?run)) ''clients/06-solomachine-0/clientState'' =
               Some ''solomachine.v2|5,true,K,d,1000''"
    by (simp add: solomachine_scenario_def example_env_def migrate_eval store_eval key_eval parse_eval)
  have k1: "clientPrefix ''06-solomachine-0'' @ ConsensusStateKey \<lparr>RevisionNumber = 1, RevisionHeight = 1\<rparr>
              = ''clients/06-solomachine-0/consensusStates/1-1''"
    and k2: "clientPrefix ''06-solomachine-0'' @ ConsensusStateKey \<lparr>RevisionNumber = 1, RevisionHeight = 2\<rparr>
              = ''clients/06-solomachine-0/consensusStates/1-2''"
    by (simp_all add: key_eval parse_eval)
  have mem: "''06-solomachine-0'' \<in> set [''06-solomachine-0'']" "distinct [''06-solomachine-0'']"
    by simp_all
  from solomachine_migrated [OF run scan mem tag]
  have "\<forall>h. KVStore_Get (store (snd ?run)) (clientPrefix ''06-solomachine-0'' @ ConsensusStateKey h) = None"
    by blast
  then have "KVStore_Get (store (snd ?run)) ''clients/06-solomachine-0/consensusStates/1-1'' = None"
    "KVStore_Get (store (snd ?run)) ''clients/06-solomachine-0/consensusStates/1-2'' = None"
    using k1 k2 by metis+
  with ok new show ?thesis by simp
qed

text \<open>
  The claim as the spec states it (the client's consensus state range is empty) fails:
  the migration succeeds on a solo machine client whose view holds, beside the key
  \<open>consensusStates/1-1\<close>, a key of three segments and a key whose height is not in
  the string form of \<open>Height.String\<close>, and both are still in the range afterwards.
\<close>

theorem consensus_range_counterexample:
  "fst (MigrateStore example_env chain_height unpruned_keys) = Returned None \<and>
   ParseClientIdentifier ''06-solomachine-0'' = Inr (Solomachine, 0) \<and>
   prefixStore_Iterator ''clients/06-solomachine-0/''
     (store (snd (MigrateStore example_env chain_height unpruned_keys))) KeyConsensusStatePrefix =
     [''consensusStates/01-2'', ''consensusStates/1-1/processedTime'']"
  by (simp add: unpruned_keys_def example_env_def migrate_eval store_eval key_eval parse_eval)

lemma migrateClient_Tendermint_None:
  assumes "migrateClient_Tendermint env ctx pfx bz st = (None, st')"
  obtains tmClientState st1 where
    "UnmarshalInterface env bz = Inr (TendermintClientState tmClientState)"
    "addConsensusMetadata env ctx pfx st = (None, st1)"
    "st' = emit (ExternalPrune pfx)
             (st1\<lparr>store := prefixStore_replace pfx (store st1)
                (snd (PruneAllExpiredConsensusStates env ctx (prefixStore_entries pfx (store st1))
                        tmClientState))\<rparr>)"
  using assms
  by (auto simp: migrateClient_Tendermint_def
      split: sum.splits prod.splits option.splits exported_ClientState.splits)

lemma migrateClient_Tendermint_tag:
  assumes "migrateClient env ctx clientID st = (None, st')"
    and "ParseClientIdentifier clientID = Inr (Tendermint, sequence)"
  obtains bz where "prefixStore_Get (clientPrefix clientID) st ClientStateKey = Some bz"
    "migrateClient_Tendermint env ctx (clientPrefix clientID) bz st = (None, st')"
  using assms by (auto simp: migrateClient_def Solomachine_def Tendermint_def split: option.splits)

text \<open>
  Claim C2: when the loop body has completed for a client with the tendermint tag, the
  backfill has returned a state in which every height that had a consensus state key in
  the client's view has a processed-height marker holding the chain's current height
  and an iteration marker, and in which the client state record is the one from before;
  the store the body leaves differs from it only by what the external pruning routine,
  called afterwards on the client's view, has made of that view. The marker keys of
  07-tendermint are parameters: an iteration key is never a processed-height key, and
  neither is the client state key.
\<close>

theorem tendermint_backfilled:
  assumes "ParseClientIdentifier clientID = Inr (Tendermint, sequence)"
    and "migrateClient env ctx clientID st = (None, st')"
    and "\<forall>h h'. IterationKey env h' \<noteq> ProcessedHeightKey env h"
    and "\<forall>h. ProcessedHeightKey env h \<noteq> ClientStateKey \<and> IterationKey env h \<noteq> ClientStateKey"
    and "prefixStore_Get (clientPrefix clientID) st (ConsensusStateKey h) \<noteq> None"
  shows "\<exists>st1 tmClientState.
           addConsensusMetadata env ctx (clientPrefix clientID) st = (None, st1) \<and>
           prefixStore_Get (clientPrefix clientID) st1 (ProcessedHeightKey env h) =
             Some (Height_String (GetSelfHeight env ctx)) \<and>
           prefixStore_Get (clientPrefix clientID) st1 (IterationKey env h) \<noteq> None \<and>
           prefixStore_Get (clientPrefix clientID) st1 ClientStateKey =
             prefixStore_Get (clientPrefix clientID) st ClientStateKey \<and>
           store st' =
             prefixStore_replace (clientPrefix clientID) (store st1)
               (snd (PruneAllExpiredConsensusStates env ctx
                       (prefixStore_entries (clientPrefix clientID) (store st1)) tmClientState))"
proof -
  let ?pfx = "clientPrefix clientID"
  from assms(2,1) obtain bz where
    "migrateClient_Tendermint env ctx ?pfx bz st = (None, st')"
    by (rule migrateClient_Tendermint_tag)
  then obtain tmClientState st1 where
    add: "addConsensusMetadata env ctx ?pfx st = (None, st1)" and
    st': "st' = emit (ExternalPrune ?pfx)
             (st1\<lparr>store := prefixStore_replace ?pfx (store st1)
                (snd (PruneAllExpiredConsensusStates env ctx (prefixStore_entries ?pfx (store st1))
                        tmClientState))\<rparr>)"
    by (rule migrateClient_Tendermint_None)
  from addConsensusMetadata_marks [OF add assms(3,4,5)] add st' show ?thesis by auto
qed


theorem tendermint_backfilled_witness:
  "prefixStore_Get ''clients/07-tendermint-0/''
     (snd (addConsensusMetadata example_env chain_height ''clients/07-tendermint-0/'' tendermint_scenario))
     (ProcessedHeightKey example_env \<lparr>RevisionNumber = 2, RevisionHeight = 10\<rparr>) = Some ''2-30'' \<and>
   prefixStore_Get ''clients/07-tendermint-0/''
     (snd (addConsensusMetadata example_env chain_height ''clients/07-tendermint-0/'' tendermint_scenario))
     (IterationKey example_env \<lparr>RevisionNumber = 2, RevisionHeight = 10\<rparr>) \<noteq> None \<and>
   prefixStore_Get ''clients/07-tendermint-0/''
     (snd (addConsensusMetadata example_env chain_height ''clients/07-tendermint-0/'' tendermint_scenario))
     ClientStateKey = Some ''tendermint|cs'' \<and>
   fst (migrateClient example_env chain_height ''07-tendermint-0'' tendermint_scenario) = None"
proof -
  let ?run = "migrateClient example_env chain_height ''07-tendermint-0'' tendermint_scenario"
  let ?add = "addConsensusMetadata example_env chain_height ''clients/07-tendermint-0/'' tendermint_scenario"
  have pfx: "clientPrefix ''07-tendermint-0'' = ''clients/07-tendermint-0/''"
    by (simp add: key_eval)
  have tag: "ParseClientIdentifier ''07-tendermint-0'' = Inr (Tendermint, 0)"
    by (simp add: parse_eval key_eval)
  have none: "fst ?run = None"
    by (simp add: tendermint_scenario_def example_env_def chain_height_def migrate_eval store_eval
        key_eval parse_eval)
  then have run: "?run = (None, snd ?run)" by (metis prod.collapse)
  have e1: "\<forall>h h'. IterationKey example_env h' \<noteq> ProcessedHeightKey example_env h"
    by (simp add: example_env_def ConsensusStateKey_def KeyConsensusStatePrefix_def)
  have e2: "\<forall>h. ProcessedHeightKey example_env h \<noteq> ClientStateKey \<and>
                IterationKey example_env h \<noteq> ClientStateKey"
    by (simp add: example_env_def key_eval)
  have k: "prefixStore_Get (clientPrefix ''07-tendermint-0'') tendermint_scenario
             (ConsensusStateKey \<lparr>RevisionNumber = 2, RevisionHeight = 10\<rparr>) \<noteq> None"
    by (simp add: tendermint_scenario_def store_eval key_eval parse_eval)
  from tendermint_backfilled [OF tag run e1 e2 k] obtain st1 where
    add: "?add = (None, st1)" and
    marks: "prefixStore_Get ''clients/07-tendermint-0/'' st1
              (ProcessedHeightKey example_env \<lparr>RevisionNumber = 2, RevisionHeight = 10\<rparr>) =
            Some (Height_String (GetSelfHeight example_env chain_height))"
      "prefixStore_Get ''clients/07-tendermint-0/'' st1
              (IterationKey example_env \<lparr>RevisionNumber = 2, RevisionHeight = 10\<rparr>) \<noteq> None"
      "prefixStore_Get ''clients/07-tendermint-0/'' st1 ClientStateKey =
         prefixStore_Get ''clients/07-tendermint-0/'' tendermint_scenario ClientStateKey"
    unfolding pfx by blast
  from add have st1: "snd ?add = st1" by simp
  have h: "Height_String (GetSelfHeight example_env chain_height) = ''2-30''"
    by (simp add: example_env_def chain_height_def parse_eval)
  have c: "prefixStore_Get ''clients/07-tendermint-0/'' tendermint_scenario ClientStateKey = Some ''tendermint|cs''"
    by (simp add: tendermint_scenario_def store_eval key_eval)
  show ?thesis using marks none unfolding st1 h c by simp
qed





text \<open>
  Claim C7, amended: for a scanned client whose identifier parses with a type tag that
  is neither the solo machine's nor tendermint's, the loop body writes nothing and goes
  on to the next client when the client state key \<open>clients/id/clientState\<close> is present;
  when it is absent the body returns the client-not-found error (the check of lines
  56-59 comes before the switch), still without a write. Whatever the outcome of
  \<open>MigrateStore\<close>, every key under the client's prefix reads at the end as at the start.
\<close>

theorem other_tag_skipped:
  assumes "MigrateStore_scan st = (Inr clients, st1)" and "clientID \<in> set clients"
    and "ParseClientIdentifier clientID = Inr (clientType, sequence)"
    and "clientType \<noteq> Solomachine" and "clientType \<noteq> Tendermint"
  shows "(\<forall>sa. migrateClient env ctx clientID sa =
            (if prefixStore_Get (clientPrefix clientID) sa ClientStateKey = None
             then Some (Returned (Some ErrClientNotFound)) else None, sa)) \<and>
         (\<forall>k. prefix (clientPrefix clientID) k \<longrightarrow>
            KVStore_Get (store (snd (MigrateStore env ctx st))) k = KVStore_Get (store st) k)"
proof (intro conjI allI impI)
  fix sa
  show "migrateClient env ctx clientID sa =
            (if prefixStore_Get (clientPrefix clientID) sa ClientStateKey = None
             then Some (Returned (Some ErrClientNotFound)) else None, sa)"
    by (rule migrateClient_other [OF assms(3-5)])
next
  fix k
  assume k: "prefix (clientPrefix clientID) k"
  have skip: "\<forall>sa. snd (migrateClient env ctx clientID sa) = sa"
    by (simp add: migrateClient_other [OF assms(3-5)])
  have ns: "CHR ''/'' \<notin> set clientID" by (rule scanned_no_slash [OF assms(1,2)])
  have "\<forall>c\<in>set clients. c \<noteq> clientID \<longrightarrow> \<not> prefix (clientPrefix c) k"
  proof (intro ballI impI)
    fix c
    assume "c \<in> set clients" "c \<noteq> clientID"
    with scanned_no_slash [OF assms(1)] ns k show "\<not> prefix (clientPrefix c) k"
      using clientPrefix_disjoint [of clientID c k] by auto
  qed
  from MigrateStore_clients_frame_skipped [OF skip this, of st1]
  show "KVStore_Get (store (snd (MigrateStore env ctx st))) k = KVStore_Get (store st) k"
    by (simp add: MigrateStore_store [OF assms(1)] MigrateStore_scan_store [OF assms(1)])
qed


theorem other_tag_skipped_witness:
  "fst (MigrateStore example_env chain_height other_tag_client) = Returned None \<and>
   KVStore_Get (store (snd (MigrateStore example_env chain_height other_tag_client)))
     ''clients/09-localhost-0/clientState'' = Some ''localhost|x'' \<and>
   KVStore_Get (store (snd (MigrateStore example_env chain_height other_tag_client)))
     ''clients/09-localhost-0/consensusStates/1-1'' = Some ''c9''"
proof -
  let ?scan = "MigrateStore_scan other_tag_client"
  have ok: "fst (MigrateStore example_env chain_height other_tag_client) = Returned None"
    by (simp add: other_tag_client_def example_env_def migrate_eval store_eval key_eval parse_eval)
  have "fst ?scan = Inr [''06-solomachine-0'', ''09-localhost-0'']"
    by (simp add: other_tag_client_def MigrateStore_scan_def store_eval key_eval)
  then have scan: "?scan = (Inr [''06-solomachine-0'', ''09-localhost-0''], snd ?scan)"
    by (metis prod.collapse)
  have tag: "ParseClientIdentifier ''09-localhost-0'' = Inr (''09-localhost'', 0)"
    by (simp add: parse_eval)
  have frame: "\<forall>k. prefix (clientPrefix ''09-localhost-0'') k \<longrightarrow>
            KVStore_Get (store (snd (MigrateStore example_env chain_height other_tag_client))) k =
            KVStore_Get (store other_tag_client) k"
    using other_tag_skipped [OF scan _ tag, of example_env chain_height]
    by (simp add: Solomachine_def Tendermint_def)
  have "prefix (clientPrefix ''09-localhost-0'') ''clients/09-localhost-0/clientState''"
    "prefix (clientPrefix ''09-localhost-0'') ''clients/09-localhost-0/consensusStates/1-1''"
    by (simp_all add: key_eval)
  with frame have
    "KVStore_Get (store (snd (MigrateStore example_env chain_height other_tag_client)))
       ''clients/09-localhost-0/clientState'' =
     KVStore_Get (store other_tag_client) ''clients/09-localhost-0/clientState''"
    "KVStore_Get (store (snd (MigrateStore example_env chain_height other_tag_client)))
       ''clients/09-localhost-0/consensusStates/1-1'' =
     KVStore_Get (store other_tag_client) ''clients/09-localhost-0/consensusStates/1-1''"
    by blast+
  with ok show ?thesis by (simp add: other_tag_client_def KVStore_Get_def)
qed

text \<open>
  The claim as the spec states it (no error is returned for such a client) fails: the
  scan finds the identifier \<open>09-localhost-0\<close> in the key
  \<open>clients/09-localhost-0/x/clientState\<close>, the key \<open>clients/09-localhost-0/clientState\<close>
  is absent, and \<open>MigrateStore\<close> returns the client-not-found error.
\<close>

theorem other_tag_counterexample:
  "fst (MigrateStore_scan nested_client_state_key) = Inr [''09-localhost-0''] \<and>
   ParseClientIdentifier ''09-localhost-0'' = Inr (''09-localhost'', 0) \<and>
   fst (MigrateStore example_env chain_height nested_client_state_key) = Returned (Some ErrClientNotFound)"
  by (simp add: nested_client_state_key_def example_env_def migrate_eval store_eval key_eval parse_eval)

text \<open>
  Claim C8: when the loop reaches a client whose identifier carries the tendermint tag
  and whose stored client state decodes to a value that is not a tendermint client
  state, \<open>MigrateStore\<close> returns the invalid client error (wrapped with its message) and
  ends in the state in which it reached the client: no backfill, no pruning.
\<close>

theorem wrong_client_type_fails:
  assumes "MigrateStore_scan st = (Inr (pre @ clientID # post), st1)"
    and "MigrateStore_clients env ctx pre st1 = (Returned None, st2)"
    and "ParseClientIdentifier clientID = Inr (Tendermint, sequence)"
    and "prefixStore_Get (clientPrefix clientID) st2 ClientStateKey = Some bz"
    and "UnmarshalInterface env bz = Inr clientState"
    and "\<forall>tmClientState. clientState \<noteq> TendermintClientState tmClientState"
  shows "MigrateStore env ctx st =
           (Returned (Some (Wrap ErrInvalidClient
              ''client state is not tendermint even though client id contains 07-tendermint'')),
            emit (IterClose KeyClientStorePrefix) st2)"
proof -
  have "MigrateStore_clients env ctx (pre @ clientID # post) st1 =
          MigrateStore_clients env ctx (clientID # post) st2"
    by (rule MigrateStore_clients_append [OF assms(2)])
  also have "\<dots> = (Returned (Some (Wrap ErrInvalidClient
              ''client state is not tendermint even though client id contains 07-tendermint'')), st2)"
    by (simp add: migrateClient_wrong_type [OF assms(3-6)])
  finally show ?thesis by (rule MigrateStore_eq [OF assms(1)])
qed


theorem wrong_client_type_fails_witness:
  "fst (MigrateStore example_env chain_height wrong_client_type) =
     Returned (Some (Wrap ErrInvalidClient
        ''client state is not tendermint even though client id contains 07-tendermint'')) \<and>
   store (snd (MigrateStore example_env chain_height wrong_client_type)) = store wrong_client_type"
proof -
  let ?scan = "MigrateStore_scan wrong_client_type"
  have "fst ?scan = Inr ([] @ ''07-tendermint-0'' # [])"
    by (simp add: wrong_client_type_def MigrateStore_scan_def store_eval key_eval)
  then have scan: "?scan = (Inr ([] @ ''07-tendermint-0'' # []), snd ?scan)" by (metis prod.collapse)
  have pre: "MigrateStore_clients example_env chain_height [] (snd ?scan) = (Returned None, snd ?scan)"
    by simp
  have tag: "ParseClientIdentifier ''07-tendermint-0'' = Inr (Tendermint, 0)"
    by (simp add: parse_eval key_eval)
  have bz: "prefixStore_Get (clientPrefix ''07-tendermint-0'') (snd ?scan) ClientStateKey =
              Some ''solomachine.v2|5,true,K,d,1000''"
    using MigrateStore_scan_store [OF scan]
    by (simp add: prefixStore_Get_def KVStore_Get_def wrong_client_type_def key_eval)
  have dec: "UnmarshalInterface example_env ''solomachine.v2|5,true,K,d,1000'' =
               Inr (OtherClientState ''solomachine.v2'')"
    by (simp add: example_env_def)
  have other: "\<forall>tmClientState. OtherClientState ''solomachine.v2'' \<noteq> TendermintClientState tmClientState"
    by simp
  show ?thesis
    using wrong_client_type_fails [OF scan pre tag bz dec other] MigrateStore_scan_store [OF scan]
    by simp
qed

section \<open>The order of iterator reads and writes\<close>

lemma track_append:
  "track opened (a @ b) = (case track opened a of None \<Rightarrow> None | Some opened' \<Rightarrow> track opened' b)"
  by (induction opened a rule: track.induct) simp_all

lemma track_keys:
  "map_of opened p = Some False \<Longrightarrow> track opened (map (IterKey p) keys) = Some opened"
  by (induction keys) simp_all

lemma track_mutation:
  "is_mutation e \<Longrightarrow> track opened (e # es) = track (map (\<lambda>(q, d). (q, d \<or> mutates e q)) opened) es"
  by (cases e) (simp_all add: is_mutation_def)

lemma track_mutations1:
  "list_all is_mutation ms \<Longrightarrow> \<exists>d'. track [(c, d)] ms = Some [(c, d')]"
proof (induction ms arbitrary: d)
  case Nil
  then show ?case by simp
next
  case (Cons e ms)
  then have "is_mutation e" "list_all is_mutation ms" by simp_all
  from Cons.IH [OF this(2), of "d \<or> mutates e c"] track_mutation [OF this(1)]
  show ?case by simp
qed

lemma track_mutations2:
  "list_all is_mutation ms \<Longrightarrow> \<exists>b' d'. track [(it, b), (c, d)] ms = Some [(it, b'), (c, d')]"
proof (induction ms arbitrary: b d)
  case Nil
  then show ?case by simp
next
  case (Cons e ms)
  then have "is_mutation e" "list_all is_mutation ms" by simp_all
  from Cons.IH [OF this(2), of "b \<or> mutates e it" "d \<or> mutates e c"] track_mutation [OF this(1)]
  show ?case by simp
qed

text \<open>A pass: open, read to the end (or to the panic), mutate, close.\<close>

lemma track_pass:
  assumes "it \<noteq> c" and "list_all is_mutation ms"
  shows "\<exists>d'. track [(c, d)] (IterOpen it # map (IterKey it) keys @ ms @ [IterClose it]) = Some [(c, d')]"
proof -
  have "track [(c, d)] (IterOpen it # map (IterKey it) keys @ ms @ [IterClose it]) =
          track [(it, False), (c, d)] (map (IterKey it) keys @ (ms @ [IterClose it]))"
    by simp
  also have "\<dots> = track [(it, False), (c, d)] (ms @ [IterClose it])"
    by (simp add: track_append track_keys)
  finally have 1: "track [(c, d)] (IterOpen it # map (IterKey it) keys @ ms @ [IterClose it]) =
      track [(it, False), (c, d)] (ms @ [IterClose it])" .
  from track_mutations2 [OF assms(2), of it False c d] obtain b' d' where
    "track [(it, False), (c, d)] ms = Some [(it, b'), (c, d')]" by blast
  then have "track [(it, False), (c, d)] (ms @ [IterClose it]) = Some [(c, d')]"
    using assms(1) by (simp add: track_append)
  with 1 show ?thesis by simp
qed

lemma client_events_Nil: "client_events c []"
  by (simp add: client_events_def)

lemma client_events_append:
  assumes "client_events c a" and "client_events c b"
  shows "client_events c (a @ b)"
  unfolding client_events_def
proof
  fix d
  from assms(1) obtain d1 where "track [(c, d)] a = Some [(c, d1)]"
    unfolding client_events_def by blast
  moreover from assms(2) obtain d2 where "track [(c, d1)] b = Some [(c, d2)]"
    unfolding client_events_def by blast
  ultimately show "\<exists>d'. track [(c, d)] (a @ b) = Some [(c, d')]"
    by (simp add: track_append)
qed

lemma client_events_mutations: "list_all is_mutation ms \<Longrightarrow> client_events c ms"
  unfolding client_events_def using track_mutations1 by blast

lemma client_events_pass:
  "it \<noteq> c \<Longrightarrow> list_all is_mutation ms \<Longrightarrow>
     client_events c (IterOpen it # map (IterKey it) keys @ ms @ [IterClose it])"
  unfolding client_events_def using track_pass by blast

text \<open>The traces of the two passes.\<close>

lemma pruneSolomachineConsensusStates_trace:
  assumes "pruneSolomachineConsensusStates pfx st = (r, st')"
  shows "\<exists>keys ms. list_all is_mutation ms \<and>
           trace st' = trace st @ IterOpen (pfx @ KeyConsensusStatePrefix) #
             map (IterKey (pfx @ KeyConsensusStatePrefix)) keys @ ms @ [IterClose (pfx @ KeyConsensusStatePrefix)]"
  using assms
proof (cases rule: pruneSolomachineConsensusStates_result)
  case (panic pv st1)
  from pruneSolomachine_collect_state [OF panic(1)] obtain ks where
    "trace st1 = trace st @ IterOpen (pfx @ KeyConsensusStatePrefix) # map (IterKey (pfx @ KeyConsensusStatePrefix)) ks"
    by auto
  with panic(3) have "list_all is_mutation [] \<and>
           trace st' = trace st @ IterOpen (pfx @ KeyConsensusStatePrefix) #
             map (IterKey (pfx @ KeyConsensusStatePrefix)) ks @ [] @ [IterClose (pfx @ KeyConsensusStatePrefix)]"
    by simp
  then show ?thesis by blast
next
  case (finished heights st1)
  from pruneSolomachine_collect_state [OF finished(1)] obtain ks where
    "trace st1 = trace st @ IterOpen (pfx @ KeyConsensusStatePrefix) # map (IterKey (pfx @ KeyConsensusStatePrefix)) ks"
    by auto
  with finished(3) have "list_all is_mutation (map (\<lambda>h. DeleteKey (pfx @ ConsensusStateKey h)) heights) \<and>
           trace st' = trace st @ IterOpen (pfx @ KeyConsensusStatePrefix) #
             map (IterKey (pfx @ KeyConsensusStatePrefix)) ks @
             map (\<lambda>h. DeleteKey (pfx @ ConsensusStateKey h)) heights @ [IterClose (pfx @ KeyConsensusStatePrefix)]"
    by (simp add: fold_Delete_trace list_all_iff is_mutation_def)
  then show ?thesis by blast
qed

lemma addConsensusMetadata_trace:
  assumes "addConsensusMetadata env ctx pfx st = (r, st')"
  shows "\<exists>keys ms. list_all is_mutation ms \<and>
           trace st' = trace st @ IterOpen (pfx @ KeyConsensusStatePrefix) #
             map (IterKey (pfx @ KeyConsensusStatePrefix)) keys @ ms @ [IterClose (pfx @ KeyConsensusStatePrefix)]"
  using assms
proof (cases rule: addConsensusMetadata_result)
  case (panic pv st1)
  from addConsensusMetadata_collect_state [OF panic(1)] obtain ks where
    "trace st1 = trace st @ IterOpen (pfx @ KeyConsensusStatePrefix) # map (IterKey (pfx @ KeyConsensusStatePrefix)) ks"
    by auto
  with panic(3) have "list_all is_mutation [] \<and>
           trace st' = trace st @ IterOpen (pfx @ KeyConsensusStatePrefix) #
             map (IterKey (pfx @ KeyConsensusStatePrefix)) ks @ [] @ [IterClose (pfx @ KeyConsensusStatePrefix)]"
    by simp
  then show ?thesis by blast
next
  case (finished heights st1)
  let ?ms = "concat (map (\<lambda>h. [SetKey (pfx @ ProcessedHeightKey env h), SetKey (pfx @ IterationKey env h)]) heights)"
  from addConsensusMetadata_collect_state [OF finished(1)] obtain ks where
    "trace st1 = trace st @ IterOpen (pfx @ KeyConsensusStatePrefix) # map (IterKey (pfx @ KeyConsensusStatePrefix)) ks"
    by auto
  with finished(3) have "list_all is_mutation ?ms \<and>
           trace st' = trace st @ IterOpen (pfx @ KeyConsensusStatePrefix) #
             map (IterKey (pfx @ KeyConsensusStatePrefix)) ks @ ?ms @ [IterClose (pfx @ KeyConsensusStatePrefix)]"
    by (auto simp: fold_addConsensusMetadata_set_trace list_all_iff is_mutation_def)
  then show ?thesis by blast
qed

lemma consensus_iterator_not_scan: "clientPrefix clientID @ KeyConsensusStatePrefix \<noteq> KeyClientStorePrefix"
  by (simp add: clientPrefix_def KeyClientStorePrefix_def)

lemma migrateClient_Solomachine_trace:
  assumes "migrateClient_Solomachine env (clientPrefix clientID) bz st = (x, st')"
  shows "\<exists>es. trace st' = trace st @ es \<and> client_events KeyClientStorePrefix es"
proof (cases "\<exists>bz' r. pruneSolomachineConsensusStates (clientPrefix clientID)
                        (prefixStore_Set (clientPrefix clientID) ClientStateKey bz' st) = (r, st')")
  case True
  then obtain bz' r where
    p: "pruneSolomachineConsensusStates (clientPrefix clientID)
          (prefixStore_Set (clientPrefix clientID) ClientStateKey bz' st) = (r, st')"
    by blast
  let ?it = "clientPrefix clientID @ KeyConsensusStatePrefix"
  from pruneSolomachineConsensusStates_trace [OF p] obtain keys ms where
    ms: "list_all is_mutation ms" and
    tr: "trace st' = trace (prefixStore_Set (clientPrefix clientID) ClientStateKey bz' st) @
           IterOpen ?it # map (IterKey ?it) keys @ ms @ [IterClose ?it]"
    by blast
  let ?es = "[SetKey (clientPrefix clientID @ ClientStateKey)] @
               (IterOpen ?it # map (IterKey ?it) keys @ ms @ [IterClose ?it])"
  have "trace st' = trace st @ ?es"
    using tr by (simp add: prefixStore_Set_def KVStore_Set_def)
  moreover have "client_events KeyClientStorePrefix ?es"
    by (intro client_events_append client_events_mutations client_events_pass
        consensus_iterator_not_scan ms) (simp add: is_mutation_def)
  ultimately show ?thesis by blast
next
  case False
  with assms have "st' = st"
    by (auto simp: migrateClient_Solomachine_def split: sum.splits prod.splits option.splits)
  then show ?thesis using client_events_Nil by simp
qed

lemma migrateClient_Tendermint_trace:
  assumes "migrateClient_Tendermint env ctx (clientPrefix clientID) bz st = (x, st')"
  shows "\<exists>es. trace st' = trace st @ es \<and> client_events KeyClientStorePrefix es"
proof -
  let ?pfx = "clientPrefix clientID"
  let ?it = "clientPrefix clientID @ KeyConsensusStatePrefix"
  from assms consider
      (same) "st' = st"
    | (panic) pv where "addConsensusMetadata env ctx ?pfx st = (Some pv, st')"
    | (pruned) st1 entries where "addConsensusMetadata env ctx ?pfx st = (None, st1)"
        "st' = emit (ExternalPrune ?pfx) (st1\<lparr>store := prefixStore_replace ?pfx (store st1) entries\<rparr>)"
    by (auto simp: migrateClient_Tendermint_def
        split: sum.splits prod.splits option.splits exported_ClientState.splits)
  then show ?thesis
  proof cases
    case same
    then show ?thesis using client_events_Nil by simp
  next
    case panic
    from addConsensusMetadata_trace [OF this] obtain keys ms where
      ms: "list_all is_mutation ms" and
      tr: "trace st' = trace st @ IterOpen ?it # map (IterKey ?it) keys @ ms @ [IterClose ?it]"
      by blast
    have "client_events KeyClientStorePrefix (IterOpen ?it # map (IterKey ?it) keys @ ms @ [IterClose ?it])"
      by (intro client_events_pass consensus_iterator_not_scan ms)
    with tr show ?thesis by blast
  next
    case pruned
    from addConsensusMetadata_trace [OF pruned(1)] obtain keys ms where
      ms: "list_all is_mutation ms" and
      tr: "trace st1 = trace st @ IterOpen ?it # map (IterKey ?it) keys @ ms @ [IterClose ?it]"
      by blast
    let ?es = "(IterOpen ?it # map (IterKey ?it) keys @ ms @ [IterClose ?it]) @ [ExternalPrune ?pfx]"
    have "trace st' = trace st @ ?es" using tr pruned(2) by simp
    moreover have "client_events KeyClientStorePrefix ?es"
      by (intro client_events_append client_events_mutations client_events_pass
          consensus_iterator_not_scan ms) (simp add: is_mutation_def)
    ultimately show ?thesis by blast
  qed
qed

lemma migrateClient_trace:
  assumes "migrateClient env ctx clientID st = (x, st')"
  shows "\<exists>es. trace st' = trace st @ es \<and> client_events KeyClientStorePrefix es"
proof -
  from assms consider
      (same) "st' = st"
    | (solo) bz where "migrateClient_Solomachine env (clientPrefix clientID) bz st = (x, st')"
    | (tm) bz where "migrateClient_Tendermint env ctx (clientPrefix clientID) bz st = (x, st')"
    by (auto simp: migrateClient_def split: sum.splits prod.splits option.splits if_splits)
  then show ?thesis
  proof cases
    case same
    then show ?thesis using client_events_Nil by simp
  next
    case solo
    then show ?thesis by (rule migrateClient_Solomachine_trace)
  next
    case tm
    then show ?thesis by (rule migrateClient_Tendermint_trace)
  qed
qed

lemma MigrateStore_clients_trace:
  "MigrateStore_clients env ctx clients st = (r, st') \<Longrightarrow>
     \<exists>es. trace st' = trace st @ es \<and> client_events KeyClientStorePrefix es"
proof (induction clients arbitrary: st)
  case Nil
  then show ?case using client_events_Nil by simp
next
  case (Cons c clients)
  obtain x sa where step: "migrateClient env ctx c st = (x, sa)"
    by (cases "migrateClient env ctx c st")
  from migrateClient_trace [OF step] obtain es1 where
    es1: "trace sa = trace st @ es1" "client_events KeyClientStorePrefix es1" by blast
  show ?case
  proof (cases x)
    case None
    with step Cons.prems have "MigrateStore_clients env ctx clients sa = (r, st')" by simp
    from Cons.IH [OF this] obtain es2 where
      es2: "trace st' = trace sa @ es2" "client_events KeyClientStorePrefix es2" by blast
    from es1 es2 have "trace st' = trace st @ (es1 @ es2)" by simp
    moreover from es1(2) es2(2) have "client_events KeyClientStorePrefix (es1 @ es2)"
      by (rule client_events_append)
    ultimately show ?thesis by blast
  next
    case (Some r')
    with step Cons.prems have "st' = sa" by simp
    with es1 show ?thesis by blast
  qed
qed

text \<open>
  Claim C4, amended: during the whole migration no iterator is read after a key under
  its prefix has been written or deleted. The scan reads its iterator to the end before
  the first client is migrated, and each pruning or backfill pass collects all its
  heights with its iterator and only afterwards issues its deletes or writes. Every
  iterator is closed when its function returns or panics, whatever the exit path: the
  close is deferred, so it comes after the pass's own mutations, and the scan's iterator
  stays open until \<open>MigrateStore\<close> ends.
\<close>

theorem iterators_read_before_mutation:
  "reads_before_mutations (trace (snd (MigrateStore env ctx \<lparr>store = s, trace = []\<rparr>)))"
proof -
  let ?c = "KeyClientStorePrefix"
  let ?st = "\<lparr>store = s, trace = []\<rparr>"
  let ?keys = "KVStorePrefixIterator s ?c"
  obtain clients st1 where scan: "MigrateStore_scan ?st = (Inr clients, st1)"
    and t1: "trace st1 = IterOpen ?c # map (IterKey ?c) ?keys"
    using MigrateStore_scan_eq [of ?st] by simp
  obtain r st2 where loop: "MigrateStore_clients env ctx clients st1 = (r, st2)"
    by (cases "MigrateStore_clients env ctx clients st1")
  from MigrateStore_clients_trace [OF loop] obtain es where
    es: "trace st2 = trace st1 @ es" "client_events ?c es" by blast
  from es(2) obtain d' where d': "track [(?c, False)] es = Some [(?c, d')]"
    unfolding client_events_def by blast
  have "trace (snd (MigrateStore env ctx ?st)) =
          (IterOpen ?c # map (IterKey ?c) ?keys) @ es @ [IterClose ?c]"
    using MigrateStore_eq [OF scan loop] t1 es(1) by simp
  moreover have "track [] ((IterOpen ?c # map (IterKey ?c) ?keys) @ es @ [IterClose ?c]) = Some []"
    using d' by (simp add: track_append track_keys)
  ultimately show ?thesis by (simp add: reads_before_mutations_def)
qed

theorem iterators_read_before_mutation_witness:
  "reads_before_mutations (trace (snd (MigrateStore example_env chain_height solomachine_scenario)))"
  using iterators_read_before_mutation [of example_env chain_height "store solomachine_scenario"]
  by (simp add: solomachine_scenario_def)

text \<open>
  The claim as the spec states it (the iterator is closed before its prefix is
  mutated) fails: in the first scenario of section 8 the client state is set and the
  consensus states are deleted while the scan's iterator over \<open>clients\<close> is open, and
  the deletes come before the close of the pass's own iterator.
\<close>

theorem mutation_while_open_counterexample:
  "\<not> no_mutation_while_open []
       (trace (snd (MigrateStore example_env chain_height solomachine_scenario))) \<and>
   trace (snd (pruneSolomachineConsensusStates ''clients/06-solomachine-0/'' solomachine_scenario)) =
     [IterOpen ''clients/06-solomachine-0/consensusStates'',
      IterKey ''clients/06-solomachine-0/consensusStates'' ''consensusStates/1-1'',
      IterKey ''clients/06-solomachine-0/consensusStates'' ''consensusStates/1-2'',
      DeleteKey ''clients/06-solomachine-0/consensusStates/1-1'',
      DeleteKey ''clients/06-solomachine-0/consensusStates/1-2'',
      IterClose ''clients/06-solomachine-0/consensusStates'']"
  by (simp add: solomachine_scenario_def example_env_def migrate_eval store_eval key_eval parse_eval)

end
